theory Spec2Isabelle
  imports Complex_Main "HOL-Library.AList"
begin

section \<open>Data model (types/model.ts)\<close>

text \<open>
  Identifiers and names are JavaScript strings; they are modelled as \<open>string\<close>, one
  \<open>char\<close> per code unit. An optional field (\<open>comment?: string\<close>) is an \<open>option\<close>,
  \<open>None\<close> standing for \<open>undefined\<close>; a field that is \<open>string | null\<close> is an
  \<open>option\<close> too, \<open>None\<close> standing for \<open>null\<close>. Coordinates are JavaScript numbers and are
  idealised as \<open>real\<close>; no statement below depends on their arithmetic.
  \<open>isIndexed\<close> is declared \<open>boolean\<close> but the store builds columns without it, so it is
  an \<open>option\<close> here and only \<open>Some True\<close> is truthy.
\<close>

type_synonym Id = string

record Column =
  c_id :: Id
  c_name :: string
  c_type :: string
  nullable :: bool
  defaultValue :: "string option"
  isPrimaryKey :: bool
  isUnique :: bool
  isIndexed :: "bool option"
  c_comment :: "string option"

record ForeignKey =
  fk_id :: Id
  fk_name :: string
  fromColumnId :: Id
  toTableId :: Id
  toColumnId :: Id
  onDelete :: "string option"
  onUpdate :: "string option"
  fk_comment :: "string option"
  startCardinality :: "string option"
  endCardinality :: "string option"

record TablePosition =
  pos_x :: real
  pos_y :: real

record Table =
  t_id :: Id
  t_schemaId :: Id
  t_name :: string
  t_comment :: "string option"
  columns :: "Column list"
  foreignKeys :: "ForeignKey list"
  t_position :: "TablePosition option"

record Schema =
  s_id :: Id
  s_name :: string
  s_comment :: "string option"

record EnumType =
  e_id :: Id
  e_schemaId :: Id
  e_name :: string
  e_kind :: string
  e_values :: "string list"
  e_comment :: "string option"

record DbModel =
  m_version :: nat
  schemas :: "Schema list"
  tables :: "Table list"
  m_types :: "EnumType list"

section \<open>JavaScript library functions used by the code\<close>

text \<open>
  \<open>String.prototype.trim\<close> strips white space and line terminators: of the code units a
  \<open>char\<close> can hold these are tab, line feed, vertical tab, form feed, carriage return,
  space and the no-break space U+00A0.
\<close>

definition is_ws :: "char \<Rightarrow> bool" where
  "is_ws c = (c \<in> set [CHR 0x09, CHR 0x0A, CHR 0x0B, CHR 0x0C, CHR 0x0D, CHR 0x20, CHR 0xA0])"

definition trim :: "string \<Rightarrow> string" where
  "trim s = rev (dropWhile is_ws (rev (dropWhile is_ws s)))"

text \<open>\<open>Array.prototype.join\<close>\<close>

fun join :: "string \<Rightarrow> string list \<Rightarrow> string" where
  "join sep [] = []"
| "join sep [x] = x"
| "join sep (x # y # ys) = x @ sep @ join sep (y # ys)"

text \<open>\<open>Array.prototype.findIndex\<close>, \<open>None\<close> standing for \<open>-1\<close>.\<close>

fun findIndex :: "('a \<Rightarrow> bool) \<Rightarrow> 'a list \<Rightarrow> nat option" where
  "findIndex P [] = None"
| "findIndex P (x # xs) = (if P x then Some 0 else map_option Suc (findIndex P xs))"

text \<open>
  \<open>Array.prototype.sort\<close> with a comparator is a stable sort: it is modelled as a stable
  insertion sort. \<open>String.prototype.localeCompare\<close> depends on the host's collation and is
  a parameter (\<open>lc\<close>) of every function that calls it.
\<close>

fun insort_cmp :: "('a \<Rightarrow> 'a \<Rightarrow> int) \<Rightarrow> 'a \<Rightarrow> 'a list \<Rightarrow> 'a list" where
  "insort_cmp cmp x [] = [x]"
| "insort_cmp cmp x (y # ys) = (if cmp x y \<le> 0 then x # y # ys else y # insort_cmp cmp x ys)"

definition js_sort :: "('a \<Rightarrow> 'a \<Rightarrow> int) \<Rightarrow> 'a list \<Rightarrow> 'a list" where
  "js_sort cmp xs = foldr (insort_cmp cmp) xs []"

text \<open>
  A JavaScript \<open>Set\<close> keeps its members in insertion order: it is a list without
  repetition. A \<open>Map\<close> is an association list, read with \<open>map_of\<close> and written with
  \<open>AList.update\<close> (which keeps the place of a key that is already there, as \<open>Map.set\<close>
  does).
\<close>

definition set_add :: "'a \<Rightarrow> 'a list \<Rightarrow> 'a list" where
  "set_add x xs = (if x \<in> set xs then xs else xs @ [x])"

definition Map_of_entries :: "('k \<times> 'v) list \<Rightarrow> ('k \<times> 'v) list" where
  "Map_of_entries es = foldl (\<lambda>m (k, v). AList.update k v m) [] es"

text \<open>Decimal rendering of a counter inside a template string.\<close>

definition digit_char :: "nat \<Rightarrow> char" where
  "digit_char d = ''0123456789'' ! d"

fun string_of_nat :: "nat \<Rightarrow> string" where
  "string_of_nat n =
     (if n < 10 then [digit_char n] else string_of_nat (n div 10) @ [digit_char (n mod 10)])"

declare string_of_nat.simps [simp del]

lemma digit_char_inj: "a < 10 \<Longrightarrow> b < 10 \<Longrightarrow> digit_char a = digit_char b \<Longrightarrow> a = b"
proof -
  assume a: "a < 10" and b: "b < 10" and e: "digit_char a = digit_char b"
  have d: "distinct ''0123456789''" by simp
  have "length ''0123456789'' = 10" by simp
  with a b e d show "a = b" unfolding digit_char_def
    by (metis nth_eq_iff_index_eq)
qed

lemma string_of_nat_nonempty: "string_of_nat n \<noteq> []"
  by (subst string_of_nat.simps) simp

lemma string_of_nat_inj: "string_of_nat m = string_of_nat n \<Longrightarrow> m = n"
proof (induction m arbitrary: n rule: string_of_nat.induct)
  case (1 m)
  show ?case
  proof (cases "m < 10")
    case True
    then have m1: "string_of_nat m = [digit_char m]" by (subst string_of_nat.simps) simp
    show ?thesis
    proof (cases "n < 10")
      case True
      then have "string_of_nat n = [digit_char n]" by (subst string_of_nat.simps) simp
      with m1 "1.prems" \<open>m < 10\<close> True show ?thesis by (auto dest: digit_char_inj)
    next
      case False
      then have "string_of_nat n = string_of_nat (n div 10) @ [digit_char (n mod 10)]"
        by (subst string_of_nat.simps) simp
      with m1 "1.prems" have "string_of_nat (n div 10) = []" by simp
      then show ?thesis using string_of_nat_nonempty by blast
    qed
  next
    case False
    then have m2: "string_of_nat m = string_of_nat (m div 10) @ [digit_char (m mod 10)]"
      by (subst string_of_nat.simps) simp
    show ?thesis
    proof (cases "n < 10")
      case True
      then have "string_of_nat n = [digit_char n]" by (subst string_of_nat.simps) simp
      with m2 "1.prems" have "string_of_nat (m div 10) = []" by simp
      then show ?thesis using string_of_nat_nonempty by blast
    next
      case nf: False
      then have "string_of_nat n = string_of_nat (n div 10) @ [digit_char (n mod 10)]"
        by (subst string_of_nat.simps) simp
      with m2 "1.prems" have e1: "string_of_nat (m div 10) = string_of_nat (n div 10)"
        and e2: "digit_char (m mod 10) = digit_char (n mod 10)" by simp_all
      from "1.IH" [OF False e1] have "m div 10 = n div 10" .
      moreover from e2 have "m mod 10 = n mod 10" by (auto intro: digit_char_inj)
      ultimately show ?thesis by (metis div_mult_mod_eq)
    qed
  qed
qed

section \<open>Naming utility (lib/naming.ts)\<close>

text \<open>
  The module \<open>lib/naming\<close> is imported by the store and by the generator. Its four
  functions are taken as a parameter \<open>N\<close> of every function that calls them, so the
  statements proved for all \<open>N\<close> do not depend on how they are written.
\<close>

record naming =
  toSnakeCase :: "string \<Rightarrow> string"
  ensureUniqueConstraintName :: "string \<Rightarrow> string list \<Rightarrow> string"
  sanitizeConstraintName :: "string \<Rightarrow> string \<Rightarrow> string"
  buildConstraintName :: "string list \<Rightarrow> string \<Rightarrow> string"

section \<open>Store state (store/modelStore.ts)\<close>

record ModelSnapshot =
  snap_model :: DbModel
  snap_selectedSchemaId :: "Id option"
  snap_selectedTableId :: "Id option"
  snap_selectedColumnId :: "Id option"

record ModelState =
  model :: DbModel
  selectedSchemaId :: "Id option"
  selectedTableId :: "Id option"
  selectedColumnId :: "Id option"
  showErd :: bool
  undoStack :: "ModelSnapshot list"

datatype error = Error string

definition GENERIC_PK_NAME :: string where
  "GENERIC_PK_NAME = ''id''"

definition MAX_UNDO_STACK :: nat where
  "MAX_UNDO_STACK = 20"

text \<open>\<open>cloneModel\<close> is a structural deep copy; on values it is the identity.\<close>

definition cloneModel :: "DbModel \<Rightarrow> DbModel" where
  "cloneModel m = m"

text \<open>JavaScript truthiness of a \<open>string | null\<close>: neither \<open>null\<close> nor the empty string.\<close>

definition truthy :: "string option \<Rightarrow> bool" where
  "truthy v = (case v of None \<Rightarrow> False | Some s \<Rightarrow> s \<noteq> [])"

text \<open>\<open>xs[0]?.id ?? null\<close>\<close>

definition first_schema_id :: "Schema list \<Rightarrow> Id option" where
  "first_schema_id xs = (case xs of [] \<Rightarrow> None | s # _ \<Rightarrow> Some (s_id s))"

definition first_table_id :: "Table list \<Rightarrow> Id option" where
  "first_table_id xs = (case xs of [] \<Rightarrow> None | t # _ \<Rightarrow> Some (t_id t))"

definition first_column_id :: "Column list \<Rightarrow> Id option" where
  "first_column_id xs = (case xs of [] \<Rightarrow> None | c # _ \<Rightarrow> Some (c_id c))"

text \<open>\<open>tables.some((table) => table.columns.some((column) => column.id === sel))\<close>\<close>

definition some_column :: "Table list \<Rightarrow> Id option \<Rightarrow> bool" where
  "some_column ts sel = list_ex (\<lambda>t. list_ex (\<lambda>c. Some (c_id c) = sel) (columns t)) ts"

definition take_snapshot :: "ModelState \<Rightarrow> ModelSnapshot" where
  "take_snapshot st =
     \<lparr> snap_model = cloneModel (model st),
       snap_selectedSchemaId = selectedSchemaId st,
       snap_selectedTableId = selectedTableId st,
       snap_selectedColumnId = selectedColumnId st \<rparr>"

subsection \<open>removeSchema\<close>

definition removeSchema :: "Id \<Rightarrow> ModelState \<Rightarrow> ModelState" where
  "removeSchema ident st =
     (if length (schemas (model st)) \<le> 1 then st
      else
        let filteredSchemas = filter (\<lambda>s. s_id s \<noteq> ident) (schemas (model st));
            filteredTables = filter (\<lambda>t. t_schemaId t \<noteq> ident) (tables (model st));
            selSchema =
              (if selectedSchemaId st = Some ident then first_schema_id filteredSchemas
               else selectedSchemaId st);
            selTable =
              (if truthy (selectedTableId st) \<and>
                  \<not> list_ex (\<lambda>t. Some (t_id t) = selectedTableId st) filteredTables
               then first_table_id filteredTables
               else selectedTableId st);
            selColumn =
              (if truthy (selectedColumnId st) \<and>
                  \<not> some_column filteredTables (selectedColumnId st)
               then None
               else selectedColumnId st)
        in st\<lparr> model := (model st)\<lparr> schemas := filteredSchemas, tables := filteredTables \<rparr>,
               selectedSchemaId := selSchema,
               selectedTableId := selTable,
               selectedColumnId := selColumn \<rparr>)"

subsection \<open>removeTable and undo\<close>

definition removeTable :: "Id \<Rightarrow> ModelState \<Rightarrow> ModelState" where
  "removeTable ident st =
     (let snapshot = take_snapshot st;
          tables1 = filter (\<lambda>t. t_id t \<noteq> ident) (tables (model st));
          sanitizedTables =
            map (\<lambda>t. t\<lparr> foreignKeys := filter (\<lambda>fk. toTableId fk \<noteq> ident) (foreignKeys t) \<rparr>)
              tables1;
          selTable =
            (if selectedTableId st = Some ident then first_table_id sanitizedTables
             else selectedTableId st);
          selColumn =
            (if truthy (selectedColumnId st) \<and> some_column sanitizedTables (selectedColumnId st)
             then selectedColumnId st
             else
               (case (case find (\<lambda>t. Some (t_id t) = selTable) sanitizedTables of
                        Some t \<Rightarrow> Some t
                      | None \<Rightarrow> (case sanitizedTables of [] \<Rightarrow> None | t # _ \<Rightarrow> Some t)) of
                  None \<Rightarrow> None
                | Some t \<Rightarrow> first_column_id (columns t)))
      in st\<lparr> model := (model st)\<lparr> tables := sanitizedTables \<rparr>,
             selectedTableId := selTable,
             selectedColumnId := selColumn,
             undoStack := take MAX_UNDO_STACK (snapshot # undoStack st) \<rparr>)"

definition undo :: "ModelState \<Rightarrow> ModelState" where
  "undo st =
     (case undoStack st of
        [] \<Rightarrow> st
      | snapshot # rest \<Rightarrow>
          st\<lparr> model := cloneModel (snap_model snapshot),
              selectedSchemaId := snap_selectedSchemaId snapshot,
              selectedTableId := snap_selectedTableId snapshot,
              selectedColumnId := snap_selectedColumnId snapshot,
              undoStack := rest \<rparr>)"

subsection \<open>removeColumn\<close>

definition removeColumn :: "Id \<Rightarrow> Id \<Rightarrow> ModelState \<Rightarrow> ModelState" where
  "removeColumn tableId columnId st =
     (let snapshot = take_snapshot st;
          updatedTables =
            map (\<lambda>t.
                  if t_id t \<noteq> tableId
                  then t\<lparr> foreignKeys := filter (\<lambda>fk. toColumnId fk \<noteq> columnId) (foreignKeys t) \<rparr>
                  else t\<lparr> columns := filter (\<lambda>c. c_id c \<noteq> columnId) (columns t),
                          foreignKeys :=
                            filter (\<lambda>fk. fromColumnId fk \<noteq> columnId) (foreignKeys t) \<rparr>)
              (tables (model st));
          sel1 =
            (if list_ex (\<lambda>t. t_id t = tableId) (tables (model st)) \<and>
                selectedColumnId st = Some columnId
             then None else selectedColumnId st);
          sel2 =
            (if truthy sel1 \<and> \<not> some_column updatedTables sel1 then None else sel1)
      in st\<lparr> model := (model st)\<lparr> tables := updatedTables \<rparr>,
             selectedColumnId := sel2,
             undoStack := take MAX_UNDO_STACK (snapshot # undoStack st) \<rparr>)"

subsection \<open>moveColumn\<close>

text \<open>
  \<open>moveColumn\<close> returns nothing and has no \<open>throw\<close>; its result has the type of the
  operations that can fail so that they can be compared. The two \<open>splice\<close> calls remove
  the column and insert it at the index the target had.
\<close>

definition moveColumn :: "Id \<Rightarrow> Id \<Rightarrow> Id \<Rightarrow> ModelState \<Rightarrow> error + ModelState" where
  "moveColumn tableId columnId targetColumnId st =
     (if columnId = targetColumnId then Inr st
      else
        (case findIndex (\<lambda>table. t_id table = tableId) (tables (model st)) of
           None \<Rightarrow> Inr st
         | Some tableIndex \<Rightarrow>
             let table = tables (model st) ! tableIndex;
                 cols = columns table
             in (case findIndex (\<lambda>column. c_id column = columnId) cols of
                   None \<Rightarrow> Inr st
                 | Some fromIndex \<Rightarrow>
                     (case findIndex (\<lambda>column. c_id column = targetColumnId) cols of
                        None \<Rightarrow> Inr st
                      | Some toIndex \<Rightarrow>
                          let moved = cols ! fromIndex;
                              removed = take fromIndex cols @ drop (Suc fromIndex) cols;
                              updatedColumns = take toIndex removed @ [moved] @ drop toIndex removed;
                              updatedTables =
                                map (\<lambda>(idx, item). if idx = tableIndex
                                                     then item\<lparr> columns := updatedColumns \<rparr>
                                                     else item)
                                  (enumerate 0 (tables (model st)))
                          in Inr (st\<lparr> model := (model st)\<lparr> tables := updatedTables \<rparr>,
                                     selectedColumnId :=
                                       (if selectedColumnId st = Some columnId then Some columnId
                                        else selectedColumnId st) \<rparr>)))))"

subsection \<open>ensureUniqueName\<close>

definition candidate :: "string \<Rightarrow> nat \<Rightarrow> string" where
  "candidate normalized counter = normalized @ ''_'' @ string_of_nat counter"

lemma candidate_inj: "candidate b m = candidate b n \<Longrightarrow> m = n"
  by (simp add: candidate_def string_of_nat_inj)

lemma finite_candidates: "finite {k. c \<le> k \<and> candidate b k \<in> set names}"
proof -
  have "inj (candidate b)" by (rule injI) (rule candidate_inj)
  then have "finite (candidate b -` set names)" by (simp add: finite_vimageI)
  moreover have "{k. c \<le> k \<and> candidate b k \<in> set names} \<subseteq> candidate b -` set names" by auto
  ultimately show ?thesis by (rule rev_finite_subset)
qed

text \<open>The \<open>while (set.has(candidate))\<close> loop, started at \<open>counter = 2\<close>.\<close>

function unique_loop :: "string \<Rightarrow> string list \<Rightarrow> nat \<Rightarrow> string" where
  "unique_loop normalized names counter =
     (if candidate normalized counter \<in> set names
      then unique_loop normalized names (Suc counter)
      else candidate normalized counter)"
  by pat_completeness auto
termination
proof (relation "measure (\<lambda>(b, names, c). card {k. c \<le> k \<and> candidate b k \<in> set names})")
  show "wf (measure (\<lambda>(b, names, c). card {k. c \<le> k \<and> candidate b k \<in> set names}))" by simp
next
  fix normalized :: string and names :: "string list" and counter :: nat
  assume h: "candidate normalized counter \<in> set names"
  have "{k. Suc counter \<le> k \<and> candidate normalized k \<in> set names}
        \<subset> {k. counter \<le> k \<and> candidate normalized k \<in> set names}"
  proof
    show "{k. Suc counter \<le> k \<and> candidate normalized k \<in> set names}
        \<subseteq> {k. counter \<le> k \<and> candidate normalized k \<in> set names}" by auto
    have "counter \<in> {k. counter \<le> k \<and> candidate normalized k \<in> set names}" using h by simp
    moreover have "counter \<notin> {k. Suc counter \<le> k \<and> candidate normalized k \<in> set names}" by simp
    ultimately show "{k. Suc counter \<le> k \<and> candidate normalized k \<in> set names}
        \<noteq> {k. counter \<le> k \<and> candidate normalized k \<in> set names}" by metis
  qed
  then have "card {k. Suc counter \<le> k \<and> candidate normalized k \<in> set names}
        < card {k. counter \<le> k \<and> candidate normalized k \<in> set names}"
    by (simp add: finite_candidates psubset_card_mono)
  then show "((normalized, names, Suc counter), (normalized, names, counter))
       \<in> measure (\<lambda>(b, names, c). card {k. c \<le> k \<and> candidate b k \<in> set names})"
    by simp
qed

declare unique_loop.simps [simp del]

definition ensureUniqueName :: "string \<Rightarrow> string list \<Rightarrow> string" where
  "ensureUniqueName baseName existingNames =
     (let normalized = (if length (trim baseName) = 0 then ''sem_nome'' else trim baseName)
      in if normalized \<notin> set existingNames then normalized
         else unique_loop normalized existingNames 2)"

subsection \<open>Helpers of the store\<close>

definition createDefaultColumn :: "Id \<Rightarrow> string \<Rightarrow> string \<Rightarrow> Column" where
  "createDefaultColumn newId name type =
     \<lparr> c_id = newId, c_name = name, c_type = type, nullable = False, defaultValue = None,
       isPrimaryKey = (name = GENERIC_PK_NAME), isUnique = (name = GENERIC_PK_NAME),
       isIndexed = None, c_comment = None \<rparr>"

definition createDefaultTable :: "Id \<Rightarrow> Id \<Rightarrow> Id \<Rightarrow> string \<Rightarrow> Table" where
  "createDefaultTable newTableId newColumnId schemaId name =
     \<lparr> t_id = newTableId, t_schemaId = schemaId, t_name = name, t_comment = None,
       columns = [createDefaultColumn newColumnId GENERIC_PK_NAME ''uuid''],
       foreignKeys = [], t_position = None \<rparr>"

definition first_some :: "'a option \<Rightarrow> 'a option \<Rightarrow> 'a option" where
  "first_some a b = (case a of Some x \<Rightarrow> Some x | None \<Rightarrow> b)"

definition pickReferenceColumn :: "Table \<Rightarrow> Id option \<Rightarrow> Id list \<Rightarrow> Column option" where
  "pickReferenceColumn table preferredColumnId exclude =
     first_some
       (if truthy preferredColumnId
        then find (\<lambda>c. Some (c_id c) = preferredColumnId \<and> c_id c \<notin> set exclude) (columns table)
        else None)
       (first_some (find (\<lambda>c. isPrimaryKey c \<and> c_id c \<notin> set exclude) (columns table))
         (first_some (find (\<lambda>c. isUnique c \<and> c_id c \<notin> set exclude) (columns table))
           (find (\<lambda>c. c_id c \<notin> set exclude) (columns table))))"

text \<open>
  \<open>buildJoinColumnName\<close> adds the name it returns to the set it is given; the model returns
  the name and the extended set.
\<close>

definition buildJoinColumnName ::
  "naming \<Rightarrow> string \<Rightarrow> string \<Rightarrow> string list \<Rightarrow> string \<times> string list" where
  "buildJoinColumnName N tableName referencedColumnName existingNames =
     (let baseRaw = toSnakeCase N tableName @ ''_'' @ toSnakeCase N referencedColumnName;
          fallback = toSnakeCase N tableName @ ''_'' @ GENERIC_PK_NAME;
          base = (if length (trim baseRaw) > 0 then baseRaw else fallback);
          unique = ensureUniqueName base existingNames
      in (unique, set_add unique existingNames))"

definition normalizeFkCardinality :: "string option \<Rightarrow> string option" where
  "normalizeFkCardinality v =
     (case v of
        None \<Rightarrow> None
      | Some s \<Rightarrow>
          if s = ''many'' \<or> s = ''one_or_many'' \<or> s = ''zero_or_many'' then Some ''many''
          else Some ''one'')"

subsection \<open>addTable, addColumn, addForeignKey\<close>

text \<open>
  \<open>createId()\<close> draws a random identifier; each operation takes the identifiers it draws
  as arguments, in the order of the calls. A \<open>throw\<close> is the value \<open>Inl\<close>; the state of the
  store is then the one before the call. A default argument (\<open>name = 'tabela'\<close>) is an
  \<open>option\<close>.
\<close>

definition addTable ::
  "Id \<Rightarrow> Id \<Rightarrow> Id \<Rightarrow> string option \<Rightarrow> TablePosition option \<Rightarrow> ModelState
     \<Rightarrow> error + (Id \<times> ModelState)" where
  "addTable newTableId newColumnId schemaId name pos st =
     (if list_ex (\<lambda>s. s_id s = schemaId) (schemas (model st))
      then
        let schemaTables = filter (\<lambda>t. t_schemaId t = schemaId) (tables (model st));
            tableName =
              ensureUniqueName (case name of None \<Rightarrow> ''tabela'' | Some n \<Rightarrow> n)
                (map t_name schemaTables);
            newTable0 = createDefaultTable newTableId newColumnId schemaId tableName;
            newTable =
              (case pos of None \<Rightarrow> newTable0 | Some p \<Rightarrow> newTable0\<lparr> t_position := Some p \<rparr>)
        in Inr (t_id newTable,
                st\<lparr> model := (model st)\<lparr> tables := tables (model st) @ [newTable] \<rparr>,
                    selectedTableId := Some (t_id newTable),
                    selectedColumnId := None \<rparr>)
      else Inl (Error ''Schema inexistente''))"

definition addColumn ::
  "Id \<Rightarrow> Id \<Rightarrow> string option \<Rightarrow> ModelState \<Rightarrow> error + (Id \<times> ModelState)" where
  "addColumn newColumnId tableId name st =
     (case find (\<lambda>t. t_id t = tableId) (tables (model st)) of
        None \<Rightarrow> Inl (Error ''Tabela inexistente'')
      | Some table \<Rightarrow>
          let columnName =
                ensureUniqueName (case name of None \<Rightarrow> ''coluna'' | Some n \<Rightarrow> n)
                  (map c_name (columns table));
              newColumn = createDefaultColumn newColumnId columnName ''text''
          in Inr (c_id newColumn,
                  st\<lparr> model := (model st)\<lparr> tables :=
                          map (\<lambda>item. if t_id item = tableId
                                       then item\<lparr> columns := columns item @ [newColumn] \<rparr>
                                       else item)
                            (tables (model st)) \<rparr>,
                      selectedColumnId := Some (c_id newColumn) \<rparr>))"

text \<open>
  \<open>addForeignKey\<close> has no \<open>throw\<close>: it always returns the identifier it drew. Its result
  has the type of the other two so that the three can be compared. The argument \<open>fk\<close> is
  an \<open>Omit<ForeignKey, 'id'>\<close>: its \<open>fk_id\<close> is overwritten.
\<close>

definition addForeignKey ::
  "naming \<Rightarrow> Id \<Rightarrow> Id \<Rightarrow> ForeignKey \<Rightarrow> ModelState \<Rightarrow> error + (Id \<times> ModelState)" where
  "addForeignKey N fkId tableId fk st =
     (let tables1 =
            map (\<lambda>table.
                  if t_id table \<noteq> tableId then table
                  else
                    let fallback = ''fk_'' @ take 8 fkId;
                        currentNames = map fk_name (foreignKeys table);
                        base = sanitizeConstraintName N (fk_name fk) fallback;
                        uniqueName = ensureUniqueConstraintName N base currentNames;
                        normalizedStart = normalizeFkCardinality (startCardinality fk);
                        normalizedEnd = normalizeFkCardinality (endCardinality fk);
                        fkWithId =
                          fk\<lparr> fk_id := fkId, fk_name := uniqueName,
                              startCardinality := first_some normalizedStart (startCardinality fk),
                              endCardinality := first_some normalizedEnd (endCardinality fk) \<rparr>
                    in table\<lparr> foreignKeys := foreignKeys table @ [fkWithId] \<rparr>)
              (tables (model st))
      in Inr (fkId, st\<lparr> model := (model st)\<lparr> tables := tables1 \<rparr> \<rparr>))"

subsection \<open>convertForeignKeyToManyToMany\<close>

text \<open>The five identifiers drawn by one conversion, in the order of the calls.\<close>

record ConvertIds =
  joinTableId :: Id
  leftColumnId :: Id
  rightColumnId :: Id
  leftFkId :: Id
  rightFkId :: Id

definition layoutSpacing :: real where
  "layoutSpacing = 320"

text \<open>The layout of the three tables: the positions of the source, the target and the join table.\<close>

definition layout ::
  "TablePosition option \<Rightarrow> TablePosition option
     \<Rightarrow> TablePosition \<times> TablePosition \<times> TablePosition" where
  "layout sourcePosition targetPosition =
     (let laneY =
            (case sourcePosition of
               Some p \<Rightarrow> pos_y p
             | None \<Rightarrow> (case targetPosition of Some p \<Rightarrow> pos_y p | None \<Rightarrow> 0))
      in case sourcePosition of
           Some sp \<Rightarrow>
             (case targetPosition of
                Some tp \<Rightarrow>
                  let distance = \<bar>pos_x tp - pos_x sp\<bar>;
                      centerX = (pos_x sp + pos_x tp) / 2;
                      sp1 = (if distance < layoutSpacing * 2
                             then \<lparr> pos_x = centerX - layoutSpacing, pos_y = laneY \<rparr>
                             else \<lparr> pos_x = pos_x sp, pos_y = laneY \<rparr>);
                      tp1 = (if distance < layoutSpacing * 2
                             then \<lparr> pos_x = centerX + layoutSpacing, pos_y = laneY \<rparr>
                             else \<lparr> pos_x = pos_x tp, pos_y = laneY \<rparr>)
                  in (sp1, tp1, \<lparr> pos_x = (pos_x sp1 + pos_x tp1) / 2, pos_y = laneY \<rparr>)
              | None \<Rightarrow>
                  let sp1 = \<lparr> pos_x = pos_x sp, pos_y = laneY \<rparr>;
                      jp = \<lparr> pos_x = pos_x sp1 + layoutSpacing, pos_y = laneY \<rparr>
                  in (sp1, \<lparr> pos_x = pos_x jp + layoutSpacing, pos_y = laneY \<rparr>, jp))
         | None \<Rightarrow>
             (case targetPosition of
                Some tp \<Rightarrow>
                  let tp1 = \<lparr> pos_x = pos_x tp, pos_y = laneY \<rparr>;
                      jp = \<lparr> pos_x = pos_x tp1 - layoutSpacing, pos_y = laneY \<rparr>
                  in (\<lparr> pos_x = pos_x jp - layoutSpacing, pos_y = laneY \<rparr>, tp1, jp)
              | None \<Rightarrow>
                  (\<lparr> pos_x = - layoutSpacing, pos_y = laneY \<rparr>,
                   \<lparr> pos_x = layoutSpacing, pos_y = laneY \<rparr>,
                   \<lparr> pos_x = 0, pos_y = laneY \<rparr>)))"

text \<open>\<open>a || b\<close> on strings: \<open>b\<close> when \<open>a\<close> is empty.\<close>

definition or_else :: "string \<Rightarrow> string \<Rightarrow> string" where
  "or_else a b = (if a = [] then b else a)"

text \<open>The name of the join table, from the two table names and the sibling tables.\<close>

definition joinTableName_of ::
  "naming \<Rightarrow> (string \<Rightarrow> string \<Rightarrow> int) \<Rightarrow> Table \<Rightarrow> Table \<Rightarrow> Table list \<Rightarrow> string" where
  "joinTableName_of N lc table targetTable schemaTables =
     (let orderedNames = js_sort lc [t_name table, t_name targetTable];
          baseNameRaw = join ''_'' orderedNames;
          fallbackName = toSnakeCase N (t_name table) @ ''_'' @ toSnakeCase N (t_name targetTable);
          baseNameSanitized = or_else (toSnakeCase N baseNameRaw) fallbackName;
          baseName = or_else baseNameSanitized ''relacionamento''
      in ensureUniqueName baseName (map t_name schemaTables))"

text \<open>The join table itself: two primary-key columns and two foreign keys.\<close>

definition buildJoinTable ::
  "naming \<Rightarrow> ConvertIds \<Rightarrow> string \<Rightarrow> Table \<Rightarrow> Table \<Rightarrow> Column \<Rightarrow> Column
     \<Rightarrow> TablePosition \<Rightarrow> Table" where
  "buildJoinTable N ids joinTableName table targetTable sourceReference targetReference joinPosition =
     (let (leftName, names1) =
            buildJoinColumnName N (''fk_'' @ t_name table) (c_name sourceReference) [];
          leftColumn =
            \<lparr> c_id = leftColumnId ids, c_name = leftName, c_type = c_type sourceReference,
              nullable = False, defaultValue = None, isPrimaryKey = True, isUnique = False,
              isIndexed = None, c_comment = None \<rparr>;
          (rightName, names2) =
            buildJoinColumnName N (''fk_'' @ t_name targetTable) (c_name targetReference) names1;
          rightColumn =
            \<lparr> c_id = rightColumnId ids, c_name = rightName, c_type = c_type targetReference,
              nullable = False, defaultValue = None, isPrimaryKey = True, isUnique = False,
              isIndexed = None, c_comment = None \<rparr>;
          leftFkNameBase =
            buildConstraintName N [joinTableName, c_name leftColumn, t_name table, ''fk'']
              (''fk_'' @ take 8 (leftFkId ids));
          leftFkName = ensureUniqueConstraintName N leftFkNameBase [];
          rightFkNameBase =
            buildConstraintName N [joinTableName, c_name rightColumn, t_name targetTable, ''fk'']
              (''fk_'' @ take 8 (rightFkId ids));
          rightFkName = ensureUniqueConstraintName N rightFkNameBase [leftFkName];
          leftFk =
            \<lparr> fk_id = leftFkId ids, fk_name = leftFkName, fromColumnId = c_id leftColumn,
              toTableId = t_id table, toColumnId = c_id sourceReference,
              onDelete = None, onUpdate = None, fk_comment = None,
              startCardinality = Some ''many'', endCardinality = Some ''one'' \<rparr>;
          rightFk =
            \<lparr> fk_id = rightFkId ids, fk_name = rightFkName, fromColumnId = c_id rightColumn,
              toTableId = t_id targetTable, toColumnId = c_id targetReference,
              onDelete = None, onUpdate = None, fk_comment = None,
              startCardinality = Some ''many'', endCardinality = Some ''one'' \<rparr>
      in \<lparr> t_id = joinTableId ids, t_schemaId = t_schemaId table, t_name = joinTableName,
           t_comment = None, columns = [leftColumn, rightColumn],
           foreignKeys = [leftFk, rightFk], t_position = Some joinPosition \<rparr>)"

text \<open>The tables after the clean-up, before the join table is spliced in.\<close>

definition sanitizeTables ::
  "nat \<Rightarrow> nat \<Rightarrow> ForeignKey \<Rightarrow> Id \<Rightarrow> bool \<Rightarrow> TablePosition \<Rightarrow> TablePosition
     \<Rightarrow> Table list \<Rightarrow> Table list" where
  "sanitizeTables tableIndex targetTableIndex fk sourceColumnId shouldRemoveSourceColumn
       sourcePosition targetPosition ts =
     map (\<lambda>(index, candidate).
            if index = tableIndex
            then candidate\<lparr>
                   columns :=
                     (if shouldRemoveSourceColumn
                      then filter (\<lambda>c. c_id c \<noteq> sourceColumnId) (columns candidate)
                      else columns candidate),
                   foreignKeys :=
                     filter (\<lambda>item. fk_id item \<noteq> fk_id fk \<and>
                                (if shouldRemoveSourceColumn
                                 then fromColumnId item \<noteq> sourceColumnId else True))
                       (foreignKeys candidate),
                   t_position := Some sourcePosition \<rparr>
            else if index = targetTableIndex
            then candidate\<lparr>
                   foreignKeys :=
                     filter (\<lambda>item. if shouldRemoveSourceColumn
                                     then toColumnId item \<noteq> sourceColumnId else True)
                       (foreignKeys candidate),
                   t_position := Some targetPosition \<rparr>
            else candidate\<lparr>
                   foreignKeys :=
                     (if shouldRemoveSourceColumn
                      then filter (\<lambda>item. toColumnId item \<noteq> sourceColumnId) (foreignKeys candidate)
                      else foreignKeys candidate) \<rparr>)
       (enumerate 0 ts)"

text \<open>
  The operation returns its \<open>success\<close> flag and the state of the store. Each
  \<open>return state\<close> of the source is a branch that returns \<open>(False, st)\<close>.
\<close>

definition convertForeignKeyToManyToMany ::
  "naming \<Rightarrow> (string \<Rightarrow> string \<Rightarrow> int) \<Rightarrow> ConvertIds \<Rightarrow> Id \<Rightarrow> Id \<Rightarrow> ModelState
     \<Rightarrow> bool \<times> ModelState" where
  "convertForeignKeyToManyToMany N lc ids tableId fkId st =
     (case findIndex (\<lambda>t. t_id t = tableId) (tables (model st)) of
        None \<Rightarrow> (False, st)
      | Some tableIndex \<Rightarrow>
     let table = tables (model st) ! tableIndex in
     (case findIndex (\<lambda>fk. fk_id fk = fkId) (foreignKeys table) of
        None \<Rightarrow> (False, st)
      | Some fkIndex \<Rightarrow>
     let fk = foreignKeys table ! fkIndex in
     (case find (\<lambda>c. c_id c = fromColumnId fk) (columns table) of
        None \<Rightarrow> (False, st)
      | Some sourceColumn \<Rightarrow>
     (case findIndex (\<lambda>t. t_id t = toTableId fk) (tables (model st)) of
        None \<Rightarrow> (False, st)
      | Some targetTableIndex \<Rightarrow>
     let targetTable = tables (model st) ! targetTableIndex in
     (case find (\<lambda>c. c_id c = toColumnId fk) (columns targetTable) of
        None \<Rightarrow> (False, st)
      | Some targetColumn \<Rightarrow>
     let shouldRemoveSourceColumn = \<not> isPrimaryKey sourceColumn;
         excluded = (if shouldRemoveSourceColumn then [c_id sourceColumn] else [])
     in
     (case pickReferenceColumn table (Some (c_id sourceColumn)) excluded of
        None \<Rightarrow> (False, st)
      | Some sourceReference \<Rightarrow>
     (case pickReferenceColumn targetTable (Some (c_id targetColumn)) [] of
        None \<Rightarrow> (False, st)
      | Some targetReference \<Rightarrow>
     let schemaTables = filter (\<lambda>t. t_schemaId t = t_schemaId table) (tables (model st));
         joinTableName = joinTableName_of N lc table targetTable schemaTables;
         (sourcePosition, targetPosition, joinPosition) =
           layout (t_position table) (t_position targetTable);
         joinTable =
           buildJoinTable N ids joinTableName table targetTable sourceReference targetReference
             joinPosition;
         sanitizedTables =
           sanitizeTables tableIndex targetTableIndex fk (c_id sourceColumn)
             shouldRemoveSourceColumn sourcePosition targetPosition (tables (model st));
         nextTables =
           take (tableIndex + 1) sanitizedTables @ [joinTable] @ drop (tableIndex + 1) sanitizedTables
     in (True,
         st\<lparr> model := (model st)\<lparr> tables := nextTables \<rparr>,
             selectedTableId := Some (joinTableId ids),
             selectedColumnId := Some (leftColumnId ids) \<rparr>))))))))"

section \<open>Cardinality inference (components/CrowFootEdge.tsx)\<close>

datatype Kind = one | many

record KindParams =
  fkNullable :: bool
  fkIsUnique :: bool
  refIsUnique :: bool

record Kinds =
  k_start :: Kind
  k_end :: Kind

definition computeKindsFromModel :: "KindParams \<Rightarrow> Kinds" where
  "computeKindsFromModel params =
     \<lparr> k_start = (if fkIsUnique params then one else many),
       k_end = (if refIsUnique params then one else many) \<rparr>"

section \<open>DDL generator\<close>

definition dquote :: char where
  "dquote = CHR 0x22"

definition squote :: char where
  "squote = CHR 0x27"

definition newline :: char where
  "newline = CHR 0x0A"

text \<open>\<open>value.replaceAll(q, q + q)\<close> for a one-character \<open>q\<close>.\<close>

definition double_char :: "char \<Rightarrow> string \<Rightarrow> string" where
  "double_char q v = concat (map (\<lambda>c. if c = q then [q, q] else [c]) v)"

definition quoteIdent :: "string \<Rightarrow> string" where
  "quoteIdent v = [dquote] @ double_char dquote v @ [dquote]"

definition qualify :: "string \<Rightarrow> string \<Rightarrow> string" where
  "qualify schema name = quoteIdent schema @ ''.'' @ quoteIdent name"

definition quoteLiteral :: "string \<Rightarrow> string" where
  "quoteLiteral v = [squote] @ double_char squote v @ [squote]"

definition buildColumnDefinition :: "Column \<Rightarrow> string" where
  "buildColumnDefinition column =
     join '' ''
       ([quoteIdent (c_name column), c_type column]
        @ (if nullable column then [] else [''NOT NULL''])
        @ (case defaultValue column of
             None \<Rightarrow> []
           | Some d \<Rightarrow> if d \<noteq> [] \<and> length (trim d) > 0 then [''DEFAULT '' @ trim d] else []))"

definition buildForeignKeyClause ::
  "ForeignKey \<Rightarrow> Table \<Rightarrow> (Id \<Rightarrow> Table option) \<Rightarrow> (Id \<Rightarrow> string) \<Rightarrow> string option" where
  "buildForeignKeyClause fk table getTableById getSchemaName =
     (case find (\<lambda>c. c_id c = fromColumnId fk) (columns table) of
        None \<Rightarrow> None
      | Some fromColumn \<Rightarrow>
     (case getTableById (toTableId fk) of
        None \<Rightarrow> None
      | Some targetTable \<Rightarrow>
     (case find (\<lambda>c. c_id c = toColumnId fk) (columns targetTable) of
        None \<Rightarrow> None
      | Some targetColumn \<Rightarrow>
          Some (join '' ''
            ([''CONSTRAINT '' @ quoteIdent (fk_name fk) @ '' FOREIGN KEY (''
                @ quoteIdent (c_name fromColumn) @ '')'',
              ''REFERENCES '' @ qualify (getSchemaName (t_schemaId targetTable)) (t_name targetTable)
                @ '' ('' @ quoteIdent (c_name targetColumn) @ '')'']
             @ (if truthy (onDelete fk) then [''ON DELETE '' @ the (onDelete fk)] else [])
             @ (if truthy (onUpdate fk) then [''ON UPDATE '' @ the (onUpdate fk)] else []))))))"

definition buildTableStatement ::
  "Table \<Rightarrow> string \<Rightarrow> (Id \<Rightarrow> Table option) \<Rightarrow> (Id \<Rightarrow> string) \<Rightarrow> string" where
  "buildTableStatement table schemaName getTableById getSchemaName =
     (let pkColumns = map (\<lambda>c. quoteIdent (c_name c)) (filter isPrimaryKey (columns table));
          uniqueColumns =
            map (\<lambda>c. quoteIdent (c_name c))
              (filter (\<lambda>c. isUnique c \<and> \<not> isPrimaryKey c) (columns table));
          columnDefinitions =
            map buildColumnDefinition (columns table)
            @ (if length pkColumns > 0 then [''PRIMARY KEY ('' @ join '', '' pkColumns @ '')''] else [])
            @ map (\<lambda>columnName. ''UNIQUE ('' @ columnName @ '')'') uniqueColumns
            @ concat (map (\<lambda>fk. case buildForeignKeyClause fk table getTableById getSchemaName of
                                   None \<Rightarrow> []
                                 | Some clause \<Rightarrow> if clause = [] then [] else [clause])
                        (foreignKeys table));
          multilineTableDefinition =
            ''CREATE TABLE '' @ qualify schemaName (t_name table) @ '' ('' @ [newline] @ ''  ''
              @ join ('','' @ [newline] @ ''  '') columnDefinitions @ [newline] @ '');'';
          inlineDefinitions = join '', '' columnDefinitions;
          prefersInline = (length columnDefinitions \<le> 3 \<and> length inlineDefinitions \<le> 120);
          tableDefinition =
            (if prefersInline
             then ''CREATE TABLE '' @ qualify schemaName (t_name table) @ '' ('' @ inlineDefinitions
                    @ '');''
             else multilineTableDefinition);
          comments =
            (if truthy (t_comment table)
             then [''COMMENT ON TABLE '' @ qualify schemaName (t_name table) @ '' IS ''
                     @ quoteLiteral (the (t_comment table)) @ '';'']
             else [])
            @ concat (map (\<lambda>c. if truthy (c_comment c)
                                then [''COMMENT ON COLUMN '' @ qualify schemaName (t_name table)
                                        @ ''.'' @ quoteIdent (c_name c) @ '' IS ''
                                        @ quoteLiteral (the (c_comment c)) @ '';'']
                                else [])
                        (columns table))
      in join [newline] (tableDefinition # comments))"

subsection \<open>buildIndexesForTable\<close>

definition startsWith :: "string \<Rightarrow> string \<Rightarrow> bool" where
  "startsWith s p = (take (length p) s = p)"

text \<open>The name an index gets before it is made unique.\<close>

definition indexBase :: "naming \<Rightarrow> Table \<Rightarrow> Column \<Rightarrow> string" where
  "indexBase N table column =
     (let baseRaw = t_name table @ ''_'' @ c_name column @ ''_idx'';
          sanitized = or_else (toSnakeCase N baseRaw) (''idx_'' @ take 8 (c_id column))
      in if startsWith sanitized ''idx_'' then sanitized else ''idx_'' @ sanitized)"

text \<open>The statement returned for one column.\<close>

definition indexStatement :: "Table \<Rightarrow> string \<Rightarrow> string \<Rightarrow> Column \<Rightarrow> string" where
  "indexStatement table schemaName indexName column =
     ''CREATE INDEX '' @ quoteIdent indexName @ '' ON '' @ qualify schemaName (t_name table)
       @ '' ('' @ quoteIdent (c_name column) @ '');''"

text \<open>The \<open>map\<close> over the indexed columns, threading the set \<open>usedNames\<close>.\<close>

fun indexStatements :: "naming \<Rightarrow> Table \<Rightarrow> string \<Rightarrow> string list \<Rightarrow> Column list \<Rightarrow> string list" where
  "indexStatements N table schemaName usedNames [] = []"
| "indexStatements N table schemaName usedNames (column # rest) =
     (let indexName = ensureUniqueConstraintName N (indexBase N table column) usedNames
      in indexStatement table schemaName indexName column
         # indexStatements N table schemaName (set_add indexName usedNames) rest)"

definition indexedColumns :: "Table \<Rightarrow> Column list" where
  "indexedColumns table =
     filter (\<lambda>c. isIndexed c = Some True \<and> \<not> isPrimaryKey c \<and> \<not> isUnique c) (columns table)"

definition buildIndexesForTable :: "naming \<Rightarrow> Table \<Rightarrow> string \<Rightarrow> string list" where
  "buildIndexesForTable N table schemaName =
     indexStatements N table schemaName [] (indexedColumns table)"

subsection \<open>topologicallySortTables\<close>

type_synonym 'v JsMap = "(Id \<times> 'v) list"

definition fkStep ::
  "Table JsMap \<Rightarrow> Table \<Rightarrow> ForeignKey \<Rightarrow> Id list \<times> Id list JsMap \<Rightarrow> Id list \<times> Id list JsMap" where
  "fkStep tableById table fk acc =
     (case acc of (dependencies, dependentsMap) \<Rightarrow>
        if toTableId fk = [] \<or> toTableId fk = t_id table then acc
        else if map_of tableById (toTableId fk) = None then acc
        else
          let dependents =
                (case map_of dependentsMap (toTableId fk) of Some d \<Rightarrow> d | None \<Rightarrow> [])
          in (set_add (toTableId fk) dependencies,
              AList.update (toTableId fk) (set_add (t_id table) dependents) dependentsMap))"

definition tableStep ::
  "Table JsMap \<Rightarrow> Table \<Rightarrow> Id list JsMap \<times> Id list JsMap \<Rightarrow> Id list JsMap \<times> Id list JsMap" where
  "tableStep tableById table acc =
     (case acc of (dependencyMap, dependentsMap) \<Rightarrow>
        (case fold (fkStep tableById table) (foreignKeys table) ([], dependentsMap) of
           (dependencies, dependentsMap1) \<Rightarrow>
             (AList.update (t_id table) dependencies dependencyMap, dependentsMap1)))"

definition buildMaps :: "Table JsMap \<Rightarrow> Table list \<Rightarrow> Id list JsMap \<times> Id list JsMap" where
  "buildMaps tableById ts = fold (tableStep tableById) ts ([], [])"

definition compareBySchemaAndName ::
  "(string \<Rightarrow> string \<Rightarrow> int) \<Rightarrow> (Id \<Rightarrow> string) \<Rightarrow> Table JsMap \<Rightarrow> Id \<Rightarrow> Id \<Rightarrow> int" where
  "compareBySchemaAndName lc getSchemaName tableById leftId rightId =
     (case map_of tableById leftId of
        None \<Rightarrow> 0
      | Some leftTable \<Rightarrow>
     (case map_of tableById rightId of
        None \<Rightarrow> 0
      | Some rightTable \<Rightarrow>
          let schemaComparison =
                lc (getSchemaName (t_schemaId leftTable)) (getSchemaName (t_schemaId rightTable))
          in if schemaComparison \<noteq> 0 then schemaComparison
             else lc (t_name leftTable) (t_name rightTable)))"

definition insertReady :: "(Id \<Rightarrow> Id \<Rightarrow> int) \<Rightarrow> Id \<Rightarrow> Id list \<Rightarrow> Id list" where
  "insertReady cmp dependentId readyQueue =
     (case findIndex (\<lambda>queuedId. cmp dependentId queuedId < 0) readyQueue of
        None \<Rightarrow> readyQueue @ [dependentId]
      | Some insertIndex \<Rightarrow>
          take insertIndex readyQueue @ [dependentId] @ drop insertIndex readyQueue)"

definition release ::
  "(Id \<Rightarrow> Id \<Rightarrow> int) \<Rightarrow> Id \<Rightarrow> Id \<Rightarrow> Id list JsMap \<times> Id list \<Rightarrow> Id list JsMap \<times> Id list" where
  "release cmp currentId dependentId acc =
     (case acc of (dependencyMap, readyQueue) \<Rightarrow>
        (case map_of dependencyMap dependentId of
           None \<Rightarrow> acc
         | Some dependencies \<Rightarrow>
             let dependencies1 = removeAll currentId dependencies;
                 dependencyMap1 = AList.update dependentId dependencies1 dependencyMap
             in if length dependencies1 = 0
                then (dependencyMap1, insertReady cmp dependentId readyQueue)
                else (dependencyMap1, readyQueue)))"

lemma set_insertReady: "set (insertReady cmp d q) = insert d (set q)"
proof (cases "findIndex (\<lambda>queuedId. cmp d queuedId < 0) q")
  case None
  then show ?thesis by (simp add: insertReady_def)
next
  case (Some i)
  have "set (take i q) \<union> set (drop i q) = set q" by (metis append_take_drop_id set_append)
  then have "set (take i q @ [d] @ drop i q) = insert d (set q)" by auto
  then show ?thesis using Some by (simp add: insertReady_def)
qed

lemma release_queue_subset:
  "set (snd (release cmp c d (dm, q))) \<subseteq> insert d (set q)"
  by (auto simp: release_def Let_def set_insertReady split: option.splits)

lemma fold_release_queue_subset:
  "set (snd (fold (release cmp c) ds (dm, q))) \<subseteq> set ds \<union> set q"
proof (induction ds arbitrary: dm q)
  case Nil
  then show ?case by simp
next
  case (Cons d ds)
  obtain dm1 q1 where r: "release cmp c d (dm, q) = (dm1, q1)" by (cases "release cmp c d (dm, q)")
  then have "set q1 \<subseteq> insert d (set q)" using release_queue_subset [of cmp c d dm q] by simp
  moreover have "set (snd (fold (release cmp c) ds (dm1, q1))) \<subseteq> set ds \<union> set q1"
    by (rule Cons.IH)
  ultimately show ?case using r by auto
qed

text \<open>The ids the loop can still visit: the queue and every registered dependent.\<close>

definition reachable :: "Id list JsMap \<Rightarrow> Id list \<Rightarrow> Id set" where
  "reachable dependentsMap readyQueue = set readyQueue \<union> \<Union> (set ` snd ` set dependentsMap)"

lemma finite_reachable: "finite (reachable dts q)"
  by (simp add: reachable_def)

lemma map_of_in_reachable: "map_of dts c = Some ds \<Longrightarrow> set ds \<subseteq> reachable dts q"
  by (force simp: reachable_def dest: map_of_SomeD)

record KahnState =
  dependencyMap :: "Id list JsMap"
  readyQueue :: "Id list"
  ordered :: "Table list"
  visited :: "Id list"

function kahnLoop ::
  "(Id \<Rightarrow> Id \<Rightarrow> int) \<Rightarrow> Table JsMap \<Rightarrow> Id list JsMap \<Rightarrow> KahnState \<Rightarrow> KahnState" where
  "kahnLoop cmp tableById dependentsMap s =
     (case readyQueue s of
        [] \<Rightarrow> s
      | currentId # rest \<Rightarrow>
          if currentId = [] \<or> currentId \<in> set (visited s)
          then kahnLoop cmp tableById dependentsMap (s\<lparr> readyQueue := rest \<rparr>)
          else
            (case map_of tableById currentId of
               None \<Rightarrow>
                 kahnLoop cmp tableById dependentsMap
                   (s\<lparr> readyQueue := rest, visited := visited s @ [currentId] \<rparr>)
             | Some currentTable \<Rightarrow>
                 (case map_of dependentsMap currentId of
                    None \<Rightarrow>
                      kahnLoop cmp tableById dependentsMap
                        (s\<lparr> readyQueue := rest, ordered := ordered s @ [currentTable],
                            visited := visited s @ [currentId] \<rparr>)
                  | Some dependents \<Rightarrow>
                      (case fold (release cmp currentId) dependents (dependencyMap s, rest) of
                         (dependencyMap1, readyQueue1) \<Rightarrow>
                           kahnLoop cmp tableById dependentsMap
                             (s\<lparr> dependencyMap := dependencyMap1, readyQueue := readyQueue1,
                                 ordered := ordered s @ [currentTable],
                                 visited := visited s @ [currentId] \<rparr>)))))"
  by pat_completeness auto


lemma card_reachable_mono:
  "set q1 \<subseteq> reachable dts q \<Longrightarrow> card (reachable dts q1 - V) \<le> card (reachable dts q - V)"
proof -
  assume "set q1 \<subseteq> reachable dts q"
  then have "reachable dts q1 \<subseteq> reachable dts q" by (auto simp: reachable_def)
  then have "reachable dts q1 - V \<subseteq> reachable dts q - V" by auto
  then show ?thesis by (simp add: card_mono finite_reachable)
qed

lemma card_reachable_visit:
  assumes "set q1 \<subseteq> reachable dts (c # q)" and "c \<notin> V"
  shows "card (reachable dts q1 - insert c V) < card (reachable dts (c # q) - V)"
proof -
  from assms(1) have "reachable dts q1 \<subseteq> reachable dts (c # q)" by (auto simp: reachable_def)
  then have "reachable dts q1 - insert c V \<subseteq> reachable dts (c # q) - V" by auto
  moreover have "c \<in> reachable dts (c # q) - V" using assms(2) by (simp add: reachable_def)
  moreover have "c \<notin> reachable dts q1 - insert c V" by simp
  ultimately have "reachable dts q1 - insert c V \<subset> reachable dts (c # q) - V" by blast
  then show ?thesis by (simp add: psubset_card_mono finite_reachable)
qed

definition kahnMeasure :: "Id list JsMap \<Rightarrow> KahnState \<Rightarrow> nat \<times> nat" where
  "kahnMeasure dts s = (card (reachable dts (readyQueue s) - set (visited s)), length (readyQueue s))"

lemma kahn_skip_decreases:
  assumes "readyQueue s = c # rest"
  shows "(kahnMeasure dts (s\<lparr>readyQueue := rest\<rparr>), kahnMeasure dts s)
           \<in> less_than <*lex*> less_than"
proof -
  have "card (reachable dts rest - set (visited s))
        \<le> card (reachable dts (c # rest) - set (visited s))"
    by (rule card_reachable_mono) (auto simp: reachable_def)
  then show ?thesis using assms by (auto simp: kahnMeasure_def)
qed

lemma kahn_visit_decreases:
  assumes "readyQueue s = c # rest" and "c \<notin> set (visited s)"
    and "set (readyQueue s') \<subseteq> reachable dts (c # rest)"
    and "visited s' = visited s @ [c]"
  shows "(kahnMeasure dts s', kahnMeasure dts s) \<in> less_than <*lex*> less_than"
proof -
  have "card (reachable dts (readyQueue s') - insert c (set (visited s)))
        < card (reachable dts (c # rest) - set (visited s))"
    using assms(3) assms(2) by (rule card_reachable_visit)
  then show ?thesis using assms(1) assms(4) by (simp add: kahnMeasure_def)
qed

lemma fold_release_reachable:
  assumes "map_of dts c = Some ds"
    and "(dm1, q1) = fold (release cmp c) ds (dm, rest)"
  shows "set q1 \<subseteq> reachable dts (c # rest)"
proof -
  have "set q1 \<subseteq> set ds \<union> set rest"
    using fold_release_queue_subset [of cmp c ds dm rest] assms(2) by (metis snd_conv)
  moreover have "set ds \<subseteq> reachable dts (c # rest)"
    using assms(1) by (rule map_of_in_reachable)
  moreover have "set rest \<subseteq> reachable dts (c # rest)"
    by (auto simp: reachable_def)
  ultimately show ?thesis by blast
qed

termination kahnLoop
proof (relation "inv_image (less_than <*lex*> less_than) (\<lambda>(cmp, tb, dts, s). kahnMeasure dts s)",
    goal_cases)
  case 1
  show ?case by (intro wf_inv_image wf_lex_prod wf_less_than)
next
  case (2 cmp tableById dependentsMap s c rest)
  then show ?case using kahn_skip_decreases [of s c rest dependentsMap] by simp
next
  case (3 cmp tableById dependentsMap s c rest)
  have "set rest \<subseteq> reachable dependentsMap (c # rest)" by (auto simp: reachable_def)
  with 3 show ?case
    using kahn_visit_decreases
      [of s c rest "s\<lparr>readyQueue := rest, visited := visited s @ [c]\<rparr>" dependentsMap]
    by simp
next
  case (4 cmp tableById dependentsMap s c rest t)
  have "set rest \<subseteq> reachable dependentsMap (c # rest)" by (auto simp: reachable_def)
  with 4 show ?case
    using kahn_visit_decreases
      [of s c rest "s\<lparr>readyQueue := rest, ordered := ordered s @ [t],
                       visited := visited s @ [c]\<rparr>" dependentsMap]
    by simp
next
  case (5 cmp tableById dependentsMap s c rest t ds dm1 q1)
  then have "set q1 \<subseteq> reachable dependentsMap (c # rest)"
    using fold_release_reachable [of dependentsMap c ds dm1 q1 cmp "dependencyMap s" rest] by simp
  with 5 show ?case
    using kahn_visit_decreases
      [of s c rest "s\<lparr>dependencyMap := dm1, readyQueue := q1, ordered := ordered s @ [t],
                       visited := visited s @ [c]\<rparr>" dependentsMap]
    by simp
qed


declare kahnLoop.simps [simp del]

text \<open>\<open>(dependencyMap.get(table.id)?.size ?? 0) === 0\<close>\<close>

definition noDependencies :: "Id list JsMap \<Rightarrow> Table \<Rightarrow> bool" where
  "noDependencies dm table =
     ((case map_of dm (t_id table) of None \<Rightarrow> 0 | Some dependencies \<Rightarrow> length dependencies) = 0)"

definition topologicallySortTables ::
  "(string \<Rightarrow> string \<Rightarrow> int) \<Rightarrow> Table list \<Rightarrow> (Id \<Rightarrow> string) \<Rightarrow> Table JsMap \<Rightarrow> Table list" where
  "topologicallySortTables lc ts getSchemaName tableById =
     (case buildMaps tableById ts of (dependencyMap0, dependentsMap) \<Rightarrow>
        let cmp = compareBySchemaAndName lc getSchemaName tableById;
            readyQueue0 = js_sort cmp (map t_id (filter (noDependencies dependencyMap0) ts));
            final =
              kahnLoop cmp tableById dependentsMap
                \<lparr> dependencyMap = dependencyMap0, readyQueue = readyQueue0,
                  ordered = [], visited = [] \<rparr>
        in if length (ordered final) \<noteq> length ts
           then ordered final
                @ js_sort (\<lambda>a b. cmp (t_id a) (t_id b))
                    (filter (\<lambda>table. t_id table \<notin> set (visited final)) ts)
           else ordered final)"

subsection \<open>generatePostgresSql\<close>

definition getSchemaName_of :: "string JsMap \<Rightarrow> Id \<Rightarrow> string" where
  "getSchemaName_of schemaById schemaId =
     (case map_of schemaById schemaId of Some n \<Rightarrow> n | None \<Rightarrow> ''public'')"

definition schemaById_of :: "DbModel \<Rightarrow> string JsMap" where
  "schemaById_of m = Map_of_entries (map (\<lambda>schema. (s_id schema, s_name schema)) (schemas m))"

definition tableById_of :: "DbModel \<Rightarrow> Table JsMap" where
  "tableById_of m = Map_of_entries (map (\<lambda>table. (t_id table, table)) (tables m))"

text \<open>The tables in the order in which their statements are emitted.\<close>

definition orderedTables :: "(string \<Rightarrow> string \<Rightarrow> int) \<Rightarrow> DbModel \<Rightarrow> Table list" where
  "orderedTables lc m =
     topologicallySortTables lc (tables m) (getSchemaName_of (schemaById_of m)) (tableById_of m)"

definition schemaStatements :: "(string \<Rightarrow> string \<Rightarrow> int) \<Rightarrow> DbModel \<Rightarrow> string list" where
  "schemaStatements lc m =
     map (\<lambda>schema. ''CREATE SCHEMA IF NOT EXISTS '' @ quoteIdent (s_name schema) @ '';'')
       (filter (\<lambda>schema. s_name schema \<noteq> ''public'')
          (js_sort (\<lambda>a b. lc (s_name a) (s_name b)) (schemas m)))"

definition typesBySchema_of :: "DbModel \<Rightarrow> EnumType list JsMap" where
  "typesBySchema_of m =
     fold (\<lambda>customType acc.
             AList.update (e_schemaId customType)
               ((case map_of acc (e_schemaId customType) of Some l \<Rightarrow> l | None \<Rightarrow> [])
                @ [customType]) acc)
       (m_types m) []"

definition typeStatements :: "DbModel \<Rightarrow> string list" where
  "typeStatements m =
     concat (map (\<lambda>(schemaId, types).
                    case map_of (schemaById_of m) schemaId of
                      None \<Rightarrow> []
                    | Some schemaName \<Rightarrow>
                        if schemaName = [] then []
                        else concat (map (\<lambda>customType.
                               if e_kind customType = ''enum''
                               then [''CREATE TYPE '' @ qualify schemaName (e_name customType)
                                       @ '' AS ENUM (''
                                       @ join '', '' (map quoteLiteral (e_values customType))
                                       @ '');'']
                               else []) types))
               (typesBySchema_of m))"

text \<open>The statements of one table: its \<open>CREATE TABLE\<close> (with comments), then its indexes.\<close>

definition tableStatements :: "naming \<Rightarrow> DbModel \<Rightarrow> Table \<Rightarrow> string list" where
  "tableStatements N m table =
     (let getSchemaName = getSchemaName_of (schemaById_of m)
      in buildTableStatement table (getSchemaName (t_schemaId table))
           (map_of (tableById_of m)) getSchemaName
         # buildIndexesForTable N table (getSchemaName (t_schemaId table)))"

definition generatePostgresSql :: "naming \<Rightarrow> (string \<Rightarrow> string \<Rightarrow> int) \<Rightarrow> DbModel \<Rightarrow> string" where
  "generatePostgresSql N lc m =
     join [newline]
       (schemaStatements lc m @ typeStatements m
        @ concat (map (tableStatements N m) (orderedTables lc m)))"

section \<open>A reference instance of the naming utility\<close>

text \<open>
  Modelled from the spec: \<open>toSnakeCase\<close> of \<open>lib/naming.ts\<close>, which is not among the
  sources. The spec says it "normalizes arbitrary text (including multi-word labels) into
  lower_snake_case tokens": the tokens are the maximal runs of ASCII letters and digits,
  in lower case, joined by an underscore.
\<close>

definition is_alnum :: "char \<Rightarrow> bool" where
  "is_alnum c =
     (c \<in> set ''abcdefghijklmnopqrstuvwxyzABCDEFGHIJKLMNOPQRSTUVWXYZ0123456789'')"

definition to_lower :: "char \<Rightarrow> char" where
  "to_lower c =
     (case map_of (zip ''ABCDEFGHIJKLMNOPQRSTUVWXYZ'' ''abcdefghijklmnopqrstuvwxyz'') c of
        Some l \<Rightarrow> l
      | None \<Rightarrow> c)"

fun snake_tokens :: "string \<Rightarrow> string \<Rightarrow> string list" where
  "snake_tokens cur [] = (if cur = [] then [] else [cur])"
| "snake_tokens cur (c # cs) =
     (if is_alnum c then snake_tokens (cur @ [to_lower c]) cs
      else (if cur = [] then [] else [cur]) @ snake_tokens [] cs)"

definition toSnakeCase_spec :: "string \<Rightarrow> string" where
  "toSnakeCase_spec s = join ''_'' (snake_tokens [] s)"

text \<open>
  Modelled from the spec: \<open>ensureUniqueConstraintName\<close> of \<open>lib/naming.ts\<close>, which is not
  among the sources. The spec says it is the "same collision-avoidance algorithm as
  ensureUniqueName": the base when it is free, else the base with \<open>_2\<close>, \<open>_3\<close>, ...
\<close>

definition ensureUniqueConstraintName_spec :: "string \<Rightarrow> string list \<Rightarrow> string" where
  "ensureUniqueConstraintName_spec base existingNames =
     (if base \<notin> set existingNames then base else unique_loop base existingNames 2)"

text \<open>
  Modelled from the spec: \<open>sanitizeConstraintName\<close> of \<open>lib/naming.ts\<close>, which is not
  among the sources. The spec says it "trims/normalizes candidate text into a valid
  constraint-name shape; if the result is empty or invalid, returns fallback".
\<close>

definition sanitizeConstraintName_spec :: "string \<Rightarrow> string \<Rightarrow> string" where
  "sanitizeConstraintName_spec cand fallback = or_else (toSnakeCase_spec (trim cand)) fallback"

text \<open>
  Modelled from the spec: \<open>buildConstraintName\<close> of \<open>lib/naming.ts\<close>, which is not among
  the sources. The spec only says that constraint names are "derived from join-table +
  column + target-table labels": the labels are joined and normalised, with the fallback
  for an empty result.
\<close>

definition buildConstraintName_spec :: "string list \<Rightarrow> string \<Rightarrow> string" where
  "buildConstraintName_spec parts fallback = or_else (toSnakeCase_spec (join ''_'' parts)) fallback"

definition specNaming :: naming where
  "specNaming =
     \<lparr> toSnakeCase = toSnakeCase_spec,
       ensureUniqueConstraintName = ensureUniqueConstraintName_spec,
       sanitizeConstraintName = sanitizeConstraintName_spec,
       buildConstraintName = buildConstraintName_spec \<rparr>"

text \<open>A collation for the examples: code-unit order.\<close>

fun lexCompare :: "string \<Rightarrow> string \<Rightarrow> int" where
  "lexCompare [] [] = 0"
| "lexCompare [] (y # ys) = - 1"
| "lexCompare (x # xs) [] = 1"
| "lexCompare (x # xs) (y # ys) =
     (if (of_char x :: nat) < of_char y then - 1
      else if (of_char y :: nat) < of_char x then 1
      else lexCompare xs ys)"

section \<open>Example models\<close>

definition mkColumn :: "Id \<Rightarrow> string \<Rightarrow> string \<Rightarrow> bool \<Rightarrow> bool \<Rightarrow> Column" where
  "mkColumn i n ty pk uq =
     \<lparr> c_id = i, c_name = n, c_type = ty, nullable = False, defaultValue = None,
       isPrimaryKey = pk, isUnique = uq, isIndexed = None, c_comment = None \<rparr>"

definition mkFk :: "Id \<Rightarrow> string \<Rightarrow> Id \<Rightarrow> Id \<Rightarrow> Id \<Rightarrow> ForeignKey" where
  "mkFk i n fromC toT toC =
     \<lparr> fk_id = i, fk_name = n, fromColumnId = fromC, toTableId = toT, toColumnId = toC,
       onDelete = None, onUpdate = None, fk_comment = None,
       startCardinality = None, endCardinality = None \<rparr>"

definition mkTable :: "Id \<Rightarrow> Id \<Rightarrow> string \<Rightarrow> Column list \<Rightarrow> ForeignKey list \<Rightarrow> Table" where
  "mkTable i sid n cs fks =
     \<lparr> t_id = i, t_schemaId = sid, t_name = n, t_comment = None, columns = cs,
       foreignKeys = fks, t_position = None \<rparr>"

definition mkState :: "Schema list \<Rightarrow> Table list \<Rightarrow> ModelState" where
  "mkState ss ts =
     \<lparr> model = \<lparr> m_version = 1, schemas = ss, tables = ts, m_types = [] \<rparr>,
       selectedSchemaId = None, selectedTableId = None, selectedColumnId = None,
       showErd = True, undoStack = [] \<rparr>"

definition publicSchema :: Schema where
  "publicSchema = \<lparr> s_id = ''s1'', s_name = ''public'', s_comment = None \<rparr>"

definition salesSchema :: Schema where
  "salesSchema = \<lparr> s_id = ''s2'', s_name = ''sales'', s_comment = None \<rparr>"

text \<open>One table \<open>node\<close> whose column \<open>parent\<close> references its own column \<open>code\<close>.\<close>

definition selfRefState :: ModelState where
  "selfRefState =
     mkState [publicSchema]
       [mkTable ''t1'' ''s1'' ''node''
          [mkColumn ''c1'' ''id'' ''uuid'' True True,
           mkColumn ''c2'' ''code'' ''text'' False True,
           mkColumn ''c3'' ''parent'' ''text'' False False]
          [mkFk ''f1'' ''node_parent_fk'' ''c3'' ''t1'' ''c2'']]"

text \<open>Two schemas; \<open>sales.orders\<close> references \<open>public.customers\<close>.\<close>

definition twoSchemaState :: ModelState where
  "twoSchemaState =
     mkState [publicSchema, salesSchema]
       [mkTable ''t1'' ''s1'' ''customers'' [mkColumn ''c1'' ''id'' ''uuid'' True True] [],
        mkTable ''t2'' ''s2'' ''orders''
          [mkColumn ''c2'' ''id'' ''uuid'' True True,
           mkColumn ''c3'' ''customer_id'' ''uuid'' False False]
          [mkFk ''f1'' ''orders_customer_id_fk'' ''c3'' ''t1'' ''c1'']]"

text \<open>One schema; \<open>orders.customer_id\<close> references \<open>customers.id\<close>.\<close>

definition ordersState :: ModelState where
  "ordersState =
     mkState [publicSchema]
       [mkTable ''t1'' ''s1'' ''customers'' [mkColumn ''c1'' ''id'' ''uuid'' True True] [],
        mkTable ''t2'' ''s1'' ''orders''
          [mkColumn ''c2'' ''id'' ''uuid'' True True,
           mkColumn ''c3'' ''customer_id'' ''uuid'' False False]
          [mkFk ''f1'' ''orders_customer_id_fk'' ''c3'' ''t1'' ''c1'']]"

text \<open>A table \<open>users\<close> whose column \<open>email\<close> is indexed, not unique and not a primary key.\<close>

definition usersTable :: Table where
  "usersTable =
     mkTable ''t1'' ''s1'' ''users''
       [mkColumn ''c1'' ''id'' ''uuid'' True True,
        (mkColumn ''c2'' ''email'' ''text'' False False)\<lparr> isIndexed := Some True \<rparr>] []"

text \<open>
  Three tables given in the order \<open>C\<close>, \<open>B\<close>, \<open>A\<close>, where \<open>B\<close> references \<open>A\<close> and \<open>C\<close>
  references \<open>B\<close>; by name \<open>C\<close> sorts first and \<open>A\<close> last.
\<close>

definition tblA :: Table where
  "tblA = mkTable ''ta'' ''s1'' ''z_a'' [mkColumn ''a1'' ''id'' ''uuid'' True True] []"

definition tblB :: Table where
  "tblB =
     mkTable ''tb'' ''s1'' ''m_b''
       [mkColumn ''b1'' ''id'' ''uuid'' True True, mkColumn ''b2'' ''a_id'' ''uuid'' False False]
       [mkFk ''f1'' ''b_a_fk'' ''b2'' ''ta'' ''a1'']"

definition tblC :: Table where
  "tblC =
     mkTable ''tc'' ''s1'' ''a_c''
       [mkColumn ''c1'' ''id'' ''uuid'' True True, mkColumn ''c2'' ''b_id'' ''uuid'' False False]
       [mkFk ''f2'' ''c_b_fk'' ''c2'' ''tb'' ''b1'']"

definition chainModel :: DbModel where
  "chainModel =
     \<lparr> m_version = 1, schemas = [publicSchema], tables = [tblC, tblB, tblA], m_types = [] \<rparr>"

text \<open>As \<open>ordersState\<close>, but \<open>customer_id\<close> is the only column of \<open>orders\<close>.\<close>

definition ordersOnlyFkState :: ModelState where
  "ordersOnlyFkState =
     mkState [publicSchema]
       [mkTable ''t1'' ''s1'' ''customers'' [mkColumn ''c1'' ''id'' ''uuid'' True True] [],
        mkTable ''t2'' ''s1'' ''orders''
          [mkColumn ''c3'' ''customer_id'' ''uuid'' False False]
          [mkFk ''f1'' ''orders_customer_id_fk'' ''c3'' ''t1'' ''c1'']]"

text \<open>As \<open>ordersState\<close>, with a third table already named \<open>customers_orders\<close>.\<close>

definition ordersTakenNameState :: ModelState where
  "ordersTakenNameState =
     mkState [publicSchema]
       [mkTable ''t1'' ''s1'' ''customers'' [mkColumn ''c1'' ''id'' ''uuid'' True True] [],
        mkTable ''t2'' ''s1'' ''orders''
          [mkColumn ''c2'' ''id'' ''uuid'' True True,
           mkColumn ''c3'' ''customer_id'' ''uuid'' False False]
          [mkFk ''f1'' ''orders_customer_id_fk'' ''c3'' ''t1'' ''c1''],
        mkTable ''t3'' ''s1'' ''customers_orders'' [mkColumn ''c4'' ''id'' ''uuid'' True True] []]"

definition exampleIds :: ConvertIds where
  "exampleIds =
     \<lparr> joinTableId = ''n1'', leftColumnId = ''n2'', rightColumnId = ''n3'',
       leftFkId = ''n4'', rightFkId = ''n5'' \<rparr>"

section \<open>Notions used in the statements\<close>

text \<open>
  Invariant 3 of the data model: every foreign key targets a table of the model and one
  of the columns of that table.
\<close>

definition fkResolves :: "Table list \<Rightarrow> ForeignKey \<Rightarrow> bool" where
  "fkResolves ts fk =
     list_ex (\<lambda>t. t_id t = toTableId fk \<and> list_ex (\<lambda>c. c_id c = toColumnId fk) (columns t)) ts"

definition referencesResolve :: "DbModel \<Rightarrow> bool" where
  "referencesResolve m = list_all (\<lambda>t. list_all (fkResolves (tables m)) (foreignKeys t)) (tables m)"

text \<open>
  The preconditions of the conversion, read off the model with \<open>find\<close>: the table, the
  foreign key, its source column, the target table and the target column exist, and a
  reference column can be picked on each side.
\<close>

definition excludedFor :: "Column \<Rightarrow> Id list" where
  "excludedFor sourceColumn = (if isPrimaryKey sourceColumn then [] else [c_id sourceColumn])"

definition preconditionFails :: "ModelState \<Rightarrow> Id \<Rightarrow> Id \<Rightarrow> bool" where
  "preconditionFails st tableId fkId =
     (case find (\<lambda>t. t_id t = tableId) (tables (model st)) of
        None \<Rightarrow> True
      | Some table \<Rightarrow>
     (case find (\<lambda>fk. fk_id fk = fkId) (foreignKeys table) of
        None \<Rightarrow> True
      | Some fk \<Rightarrow>
     (case find (\<lambda>c. c_id c = fromColumnId fk) (columns table) of
        None \<Rightarrow> True
      | Some sourceColumn \<Rightarrow>
     (case find (\<lambda>t. t_id t = toTableId fk) (tables (model st)) of
        None \<Rightarrow> True
      | Some targetTable \<Rightarrow>
     (case find (\<lambda>c. c_id c = toColumnId fk) (columns targetTable) of
        None \<Rightarrow> True
      | Some targetColumn \<Rightarrow>
          pickReferenceColumn table (Some (c_id sourceColumn)) (excludedFor sourceColumn) = None
          \<or> pickReferenceColumn targetTable (Some (c_id targetColumn)) [] = None)))))"

text \<open>
  The index names chosen by \<open>buildIndexesForTable\<close>, in the order of the columns: the
  values of \<open>indexName\<close> in its loop.
\<close>

fun indexNames :: "naming \<Rightarrow> Table \<Rightarrow> string list \<Rightarrow> Column list \<Rightarrow> string list" where
  "indexNames N table usedNames [] = []"
| "indexNames N table usedNames (column # rest) =
     (let indexName = ensureUniqueConstraintName N (indexBase N table column) usedNames
      in indexName # indexNames N table (set_add indexName usedNames) rest)"

text \<open>
  The dependency graph of the tables: \<open>a\<close> depends on \<open>b\<close> when \<open>a\<close> has a foreign key
  whose \<open>toTableId\<close> is the id of \<open>b\<close>, a table of the model other than \<open>a\<close>.
\<close>

definition dependsOn :: "Table list \<Rightarrow> Table \<Rightarrow> Table \<Rightarrow> bool" where
  "dependsOn ts a b =
     (a \<in> set ts \<and> b \<in> set ts \<and> t_id b \<noteq> t_id a
      \<and> list_ex (\<lambda>fk. toTableId fk = t_id b) (foreignKeys a))"

definition dependencyGraph :: "Table list \<Rightarrow> (Id \<times> Id) set" where
  "dependencyGraph ts = {(t_id a, t_id b) | a b. dependsOn ts a b}"

text \<open>
  The same edges as \<open>topologicallySortTables\<close> reads them: the foreign keys it does not
  skip, and the set of their targets.
\<close>

definition isDep :: "Table JsMap \<Rightarrow> Table \<Rightarrow> ForeignKey \<Rightarrow> bool" where
  "isDep tb t fk =
     (toTableId fk \<noteq> [] \<and> toTableId fk \<noteq> t_id t \<and> map_of tb (toTableId fk) \<noteq> None)"

definition depsOf :: "Table JsMap \<Rightarrow> Table \<Rightarrow> Id set" where
  "depsOf tb t = toTableId ` {fk \<in> set (foreignKeys t). isDep tb t fk}"

text \<open>The members of the set stored under a key, empty when the key is absent.\<close>

definition lk :: "Id list JsMap \<Rightarrow> Id \<Rightarrow> Id set" where
  "lk m k = (case map_of m k of None \<Rightarrow> {} | Some ds \<Rightarrow> set ds)"

text \<open>
  What the sort assumes of its inputs: the ids of the tables are distinct and not empty,
  and \<open>tableById\<close> maps exactly the id of each table to it.
\<close>

definition consistent :: "Table list \<Rightarrow> Table JsMap \<Rightarrow> bool" where
  "consistent ts tb =
     (distinct (map t_id ts) \<and> [] \<notin> t_id ` set ts
      \<and> (\<forall>t. t \<in> set ts \<longrightarrow> map_of tb (t_id t) = Some t)
      \<and> (\<forall>i t. map_of tb i = Some t \<longrightarrow> t \<in> set ts \<and> t_id t = i))"

text \<open>\<open>dependentsMap\<close> holds, for each id, the tables that depend on it.\<close>

definition dependentsOK :: "Table list \<Rightarrow> Table JsMap \<Rightarrow> Id list JsMap \<Rightarrow> bool" where
  "dependentsOK ts tb dts = (\<forall>d. lk dts d = {t_id t | t. t \<in> set ts \<and> d \<in> depsOf tb t})"

text \<open>
  The invariant of the loop of \<open>topologicallySortTables\<close>: the visited ids are the ids
  of the tables emitted so far, in order; \<open>dependencyMap\<close> holds for each table its
  dependencies not yet visited; a table is queued or visited only when all its
  dependencies are visited, and an unvisited table whose dependencies are all visited is
  in the queue; every emitted table comes after its dependencies.
\<close>

definition kahnInv :: "Table list \<Rightarrow> Table JsMap \<Rightarrow> KahnState \<Rightarrow> bool" where
  "kahnInv ts tb s =
     (set (visited s) \<subseteq> t_id ` set ts \<and> set (readyQueue s) \<subseteq> t_id ` set ts
      \<and> distinct (visited s) \<and> map t_id (ordered s) = visited s \<and> set (ordered s) \<subseteq> set ts
      \<and> (\<forall>t. t \<in> set ts \<longrightarrow> map_of (dependencyMap s) (t_id t) \<noteq> None)
      \<and> (\<forall>t. t \<in> set ts \<longrightarrow> lk (dependencyMap s) (t_id t) = depsOf tb t - set (visited s))
      \<and> (\<forall>t. t \<in> set ts \<longrightarrow> t_id t \<in> set (readyQueue s) \<union> set (visited s)
                \<longrightarrow> depsOf tb t \<subseteq> set (visited s))
      \<and> (\<forall>t. t \<in> set ts \<longrightarrow> t_id t \<notin> set (visited s) \<longrightarrow> depsOf tb t \<subseteq> set (visited s)
                \<longrightarrow> t_id t \<in> set (readyQueue s))
      \<and> (\<forall>k. k < length (ordered s) \<longrightarrow> depsOf tb (ordered s ! k) \<subseteq> set (take k (visited s))))"

text \<open>A foreign key with cardinality many to one into the table \<open>tid\<close>.\<close>

definition manyToOneInto :: "Id \<Rightarrow> ForeignKey \<Rightarrow> bool" where
  "manyToOneInto tid f =
     (toTableId f = tid \<and> startCardinality f = Some ''many'' \<and> endCardinality f = Some ''one'')"

section \<open>Facts about the library functions\<close>

lemma findIndex_find_None: "findIndex P xs = None \<longleftrightarrow> find P xs = None"
  by (induction xs) auto

lemma findIndex_find_Some:
  "findIndex P xs = Some i \<Longrightarrow> find P xs = Some (xs ! i) \<and> i < length xs \<and> P (xs ! i)"
  by (induction xs arbitrary: i) (auto split: if_splits)

lemma find_findIndex:
  "find P xs = Some x \<Longrightarrow> \<exists>i. findIndex P xs = Some i \<and> xs ! i = x"
  by (induction xs) (auto split: if_splits)

lemma find_SomeD: "find P xs = Some x \<Longrightarrow> x \<in> set xs \<and> P x"
  by (induction xs) (auto split: if_splits)

lemma findIndex_None_list_ex: "\<not> list_ex P xs \<Longrightarrow> findIndex P xs = None"
  by (induction xs) auto

lemma set_set_add: "set (set_add x xs) = insert x (set xs)"
  by (auto simp: set_add_def)

lemma set_insort_cmp: "set (insort_cmp cmp x xs) = insert x (set xs)"
  by (induction xs) auto

lemma set_js_sort: "set (js_sort cmp xs) = set xs"
  by (induction xs) (simp_all add: js_sort_def set_insort_cmp)

lemma length_insort_cmp: "length (insort_cmp cmp x xs) = Suc (length xs)"
  by (induction xs) auto

lemma length_js_sort: "length (js_sort cmp xs) = length xs"
  by (induction xs) (simp_all add: js_sort_def length_insort_cmp)

section \<open>Undo after removeTable\<close>

text \<open>
  C8. For every state and every table id (existing or not), \<open>removeTable\<close> followed by
  \<open>undo\<close> gives back the model and the three selection fields held before the removal.
\<close>

theorem removeTable_undo_restores:
  "model (undo (removeTable ident st)) = model st \<and>
   selectedSchemaId (undo (removeTable ident st)) = selectedSchemaId st \<and>
   selectedTableId (undo (removeTable ident st)) = selectedTableId st \<and>
   selectedColumnId (undo (removeTable ident st)) = selectedColumnId st"
  by (simp add: undo_def removeTable_def Let_def MAX_UNDO_STACK_def take_snapshot_def
      cloneModel_def)

section \<open>Last schema protection\<close>

text \<open>
  C9. When the model has exactly one schema, \<open>removeSchema\<close> returns the state it was
  given, whatever the id: schemas, tables, types and selection are the same.
\<close>

theorem removeSchema_last_schema_noop:
  "length (schemas (model st)) = 1 \<Longrightarrow> removeSchema ident st = st"
  by (simp add: removeSchema_def)

theorem removeSchema_last_schema_noop_witness:
  "length (schemas (model selfRefState)) = 1 \<and> removeSchema ''s1'' selfRefState = selfRefState"
proof -
  have h: "length (schemas (model selfRefState)) = 1"
    by (simp add: selfRefState_def mkState_def)
  show ?thesis using h removeSchema_last_schema_noop [OF h, of "''s1''"] by simp
qed

section \<open>Cardinality inference ignores nullability\<close>

text \<open>
  C10. \<open>computeKindsFromModel\<close> gives the same result for any two values of \<open>fkNullable\<close>;
  the start is \<open>one\<close> exactly when \<open>fkIsUnique\<close> holds and the end is \<open>one\<close> exactly when
  \<open>refIsUnique\<close> holds, \<open>many\<close> otherwise.
\<close>

theorem computeKinds_ignores_nullable:
  "computeKindsFromModel \<lparr> fkNullable = n1, fkIsUnique = u, refIsUnique = r \<rparr>
     = computeKindsFromModel \<lparr> fkNullable = n2, fkIsUnique = u, refIsUnique = r \<rparr>
   \<and> k_start (computeKindsFromModel \<lparr> fkNullable = n1, fkIsUnique = u, refIsUnique = r \<rparr>)
     = (if u then one else many)
   \<and> k_end (computeKindsFromModel \<lparr> fkNullable = n1, fkIsUnique = u, refIsUnique = r \<rparr>)
     = (if r then one else many)"
  by (simp add: computeKindsFromModel_def)

section \<open>Cascade of removeColumn\<close>

text \<open>
  What the cascade of \<open>removeColumn\<close> does remove: in every other table the foreign keys
  that target the column, and in the owning table the foreign keys that start at it.
\<close>

lemma removeColumn_cascade:
  assumes "t \<in> set (tables (model (removeColumn tableId columnId st)))"
    and "fk \<in> set (foreignKeys t)"
  shows "(t_id t \<noteq> tableId \<and> toColumnId fk \<noteq> columnId)
       \<or> (t_id t = tableId \<and> fromColumnId fk \<noteq> columnId)"
  using assms by (auto simp: removeColumn_def Let_def split: if_splits)

text \<open>
  C1. In \<open>selfRefState\<close> every foreign key resolves, and the table \<open>node\<close> owns a foreign
  key from \<open>parent\<close> to its own column \<open>code\<close> (id \<open>c2\<close>). After \<open>removeColumn\<close> of \<open>c2\<close>
  the column is gone from the table and the foreign key that targets it is still there:
  it no longer resolves.
\<close>

theorem removeColumn_keeps_selfref_fk:
  "referencesResolve (model selfRefState)
   \<and> map (\<lambda>t. (map c_id (columns t),
                map (\<lambda>fk. (fk_id fk, toTableId fk, toColumnId fk)) (foreignKeys t)))
       (tables (model (removeColumn ''t1'' ''c2'' selfRefState)))
     = [([''c1'', ''c3''], [(''f1'', ''t1'', ''c2'')])]
   \<and> \<not> referencesResolve (model (removeColumn ''t1'' ''c2'' selfRefState))"
  by (simp add: removeColumn_def selfRefState_def mkState_def mkTable_def mkColumn_def mkFk_def
      referencesResolve_def fkResolves_def Let_def)

section \<open>Cascade of removeSchema\<close>

text \<open>
  C2. In \<open>twoSchemaState\<close> every foreign key resolves, and the table \<open>orders\<close> of schema
  \<open>s2\<close> references the table \<open>customers\<close> (id \<open>t1\<close>) of schema \<open>s1\<close>. After \<open>removeSchema\<close>
  of \<open>s1\<close> the schema and the table \<open>t1\<close> are gone and \<open>orders\<close> still holds the foreign
  key whose \<open>toTableId\<close> is \<open>t1\<close>: it no longer resolves.
\<close>

theorem removeSchema_keeps_dangling_fk:
  "referencesResolve (model twoSchemaState)
   \<and> map s_id (schemas (model (removeSchema ''s1'' twoSchemaState))) = [''s2'']
   \<and> map (\<lambda>t. (t_id t, map (\<lambda>fk. (fk_id fk, toTableId fk, toColumnId fk)) (foreignKeys t)))
       (tables (model (removeSchema ''s1'' twoSchemaState)))
     = [(''t2'', [(''f1'', ''t1'', ''c1'')])]
   \<and> \<not> referencesResolve (model (removeSchema ''s1'' twoSchemaState))"
  by (simp add: removeSchema_def twoSchemaState_def mkState_def mkTable_def mkColumn_def mkFk_def
      publicSchema_def salesSchema_def referencesResolve_def fkResolves_def Let_def)

section \<open>Operations on an id that does not exist\<close>

lemma map_id_tables:
  "\<not> list_ex (\<lambda>t. t_id t = tableId) ts \<Longrightarrow> map (\<lambda>t. if t_id t \<noteq> tableId then t else f t) ts = ts"
  by (induction ts) auto

text \<open>
  C3, as stated, for \<open>addForeignKey\<close>: "invoked with a table id that does not exist, the
  operation reports a failure". It does not: \<open>addForeignKey\<close> has no failure path and
  returns the identifier it drew.
\<close>

theorem addForeignKey_reports_no_failure:
  "\<not> (\<forall>N fkId tableId fk st.
        \<not> list_ex (\<lambda>t. t_id t = tableId) (tables (model st))
        \<longrightarrow> isl (addForeignKey N fkId tableId fk st))"
proof
  assume a: "\<forall>N fkId tableId fk st.
        \<not> list_ex (\<lambda>t. t_id t = tableId) (tables (model st))
        \<longrightarrow> isl (addForeignKey N fkId tableId fk st)"
  have "\<not> list_ex (\<lambda>t. t_id t = ''zz'') (tables (model ordersState))"
    by (simp add: ordersState_def mkState_def mkTable_def)
  with a have "isl (addForeignKey specNaming ''n1'' ''zz'' (mkFk [] ''fk'' ''c3'' ''t1'' ''c1'') ordersState)"
    by blast
  then show False by (simp add: addForeignKey_def)
qed

text \<open>
  C3, amended. \<open>addTable\<close> with a schema id that does not exist and \<open>addColumn\<close> with a
  table id that does not exist report a failure, and the state of the store is the one
  before the call (the failure carries no state). \<open>moveColumn\<close> (by its guard) and
  \<open>addForeignKey\<close> (which maps over the tables) with a table id that does not exist leave
  the state unchanged and report no failure; \<open>addForeignKey\<close> still returns the
  identifier it drew.
\<close>

theorem invalid_reference_outcomes:
  "(\<not> list_ex (\<lambda>s. s_id s = schemaId) (schemas (model st))
      \<longrightarrow> addTable newTableId newColumnId schemaId name pos st = Inl (Error ''Schema inexistente''))
   \<and> (\<not> list_ex (\<lambda>t. t_id t = tableId) (tables (model st))
      \<longrightarrow> addColumn newColumnId tableId name st = Inl (Error ''Tabela inexistente'')
          \<and> moveColumn tableId columnId targetColumnId st = Inr st
          \<and> addForeignKey N fkId tableId fk st = Inr (fkId, st))"
proof (intro conjI impI)
  assume "\<not> list_ex (\<lambda>s. s_id s = schemaId) (schemas (model st))"
  then show "addTable newTableId newColumnId schemaId name pos st = Inl (Error ''Schema inexistente'')"
    by (simp add: addTable_def)
next
  assume "\<not> list_ex (\<lambda>t. t_id t = tableId) (tables (model st))"
  then have "find (\<lambda>t. t_id t = tableId) (tables (model st)) = None"
    by (simp add: find_None_iff list_ex_iff)
  then show "addColumn newColumnId tableId name st = Inl (Error ''Tabela inexistente'')"
    by (simp add: addColumn_def)
next
  assume "\<not> list_ex (\<lambda>t. t_id t = tableId) (tables (model st))"
  then show "moveColumn tableId columnId targetColumnId st = Inr st"
    by (simp add: moveColumn_def findIndex_None_list_ex)
next
  assume "\<not> list_ex (\<lambda>t. t_id t = tableId) (tables (model st))"
  then show "addForeignKey N fkId tableId fk st = Inr (fkId, st)"
    by (simp add: addForeignKey_def map_id_tables)
qed

theorem invalid_reference_outcomes_witness:
  "\<not> list_ex (\<lambda>s. s_id s = ''zz'') (schemas (model ordersState))
   \<and> addTable ''n1'' ''n2'' ''zz'' None None ordersState = Inl (Error ''Schema inexistente'')
   \<and> \<not> list_ex (\<lambda>t. t_id t = ''zz'') (tables (model ordersState))
   \<and> addColumn ''n2'' ''zz'' None ordersState = Inl (Error ''Tabela inexistente'')
   \<and> moveColumn ''zz'' ''c2'' ''c3'' ordersState = Inr ordersState
   \<and> addForeignKey specNaming ''n1'' ''zz'' (mkFk [] ''fk'' ''c3'' ''t1'' ''c1'') ordersState
       = Inr (''n1'', ordersState)"
proof -
  have h1: "\<not> list_ex (\<lambda>s. s_id s = ''zz'') (schemas (model ordersState))"
    by (simp add: ordersState_def mkState_def publicSchema_def)
  have h2: "\<not> list_ex (\<lambda>t. t_id t = ''zz'') (tables (model ordersState))"
    by (simp add: ordersState_def mkState_def mkTable_def)
  show ?thesis
    using h1 h2
      invalid_reference_outcomes [where schemaId = "''zz''" and st = ordersState
        and newTableId = "''n1''" and newColumnId = "''n2''" and name = None and pos = None
        and tableId = "''zz''" and N = specNaming and fkId = "''n1''"
        and fk = "mkFk [] ''fk'' ''c3'' ''t1'' ''c1''" and columnId = "''c2''"
        and targetColumnId = "''c3''"]
    by simp
qed

section \<open>Failure of the many-to-many conversion\<close>

text \<open>
  C6. When a precondition of \<open>convertForeignKeyToManyToMany\<close> fails (the table, the
  foreign key, its source column, the target table or the target column does not exist,
  or no reference column can be picked on one side), the operation returns \<open>False\<close> and
  the state of the store is exactly the one before the call.
\<close>

theorem convert_failure_leaves_state:
  "preconditionFails st tableId fkId \<Longrightarrow>
     convertForeignKeyToManyToMany N lc ids tableId fkId st = (False, st)"
  unfolding preconditionFails_def convertForeignKeyToManyToMany_def excludedFor_def
  by (auto simp: Let_def findIndex_find_None split: option.splits if_splits prod.splits
        dest!: findIndex_find_Some)

theorem convert_failure_leaves_state_witness:
  "preconditionFails ordersState ''zz'' ''f1'' \<and>
   convertForeignKeyToManyToMany specNaming lexCompare exampleIds ''zz'' ''f1'' ordersState
     = (False, ordersState)"
proof -
  have h: "preconditionFails ordersState ''zz'' ''f1''"
    by (simp add: preconditionFails_def ordersState_def mkState_def mkTable_def)
  show ?thesis using h convert_failure_leaves_state [OF h] by simp
qed

text \<open>The operation succeeds exactly when no precondition fails.\<close>

lemma convert_success_iff:
  "fst (convertForeignKeyToManyToMany N lc ids tableId fkId st) \<longleftrightarrow> \<not> preconditionFails st tableId fkId"
  unfolding preconditionFails_def convertForeignKeyToManyToMany_def excludedFor_def
  by (auto simp: Let_def findIndex_find_None split: option.splits if_splits prod.splits
        dest!: findIndex_find_Some)

section \<open>The many-to-many conversion of orders.customer_id\<close>

lemma pickReferenceColumn_Some:
  "list_ex (\<lambda>c. c_id c \<notin> set exclude) (columns t)
     \<Longrightarrow> \<exists>c. pickReferenceColumn t preferred exclude = Some c"
proof -
  assume "list_ex (\<lambda>c. c_id c \<notin> set exclude) (columns t)"
  then have "find (\<lambda>c. c_id c \<notin> set exclude) (columns t) \<noteq> None"
    by (auto simp: find_None_iff list_ex_iff)
  then show ?thesis
    by (auto simp: pickReferenceColumn_def first_some_def split: option.splits)
qed

lemma joinTableName_orders_customers:
  assumes "t_name orders = ''orders''" and "t_name customers = ''customers''"
    and "''customers_orders'' \<notin> set (map t_name schemaTables)"
    and "toSnakeCase N ''customers_orders'' = ''customers_orders''"
    and "0 < lc ''orders'' ''customers''"
  shows "joinTableName_of N lc orders customers schemaTables = ''customers_orders''"
  using assms
  by (simp add: joinTableName_of_def js_sort_def or_else_def ensureUniqueName_def trim_def is_ws_def
      Let_def)

lemma nth_sanitizeTables:
  "i < length ts \<Longrightarrow>
   sanitizeTables i k fk sc rm sp tp ts ! i =
     (ts ! i)\<lparr> columns := (if rm then filter (\<lambda>c. c_id c \<noteq> sc) (columns (ts ! i)) else columns (ts ! i)),
               foreignKeys := filter (\<lambda>item. fk_id item \<noteq> fk_id fk \<and>
                                (if rm then fromColumnId item \<noteq> sc else True)) (foreignKeys (ts ! i)),
               t_position := Some sp \<rparr>"
  by (simp add: sanitizeTables_def nth_enumerate_eq)

lemma length_sanitizeTables: "length (sanitizeTables i k fk sc rm sp tp ts) = length ts"
  by (simp add: sanitizeTables_def)


lemma buildJoinTable_shape:
  "\<exists>l r fl fr.
     columns (buildJoinTable N ids jn t tt sr tr jp) = [l, r] \<and> isPrimaryKey l \<and> isPrimaryKey r
     \<and> foreignKeys (buildJoinTable N ids jn t tt sr tr jp) = [fl, fr]
     \<and> manyToOneInto (t_id t) fl \<and> manyToOneInto (t_id tt) fr"
  by (simp add: buildJoinTable_def Let_def manyToOneInto_def split: prod.splits)

lemma buildJoinTable_head:
  "t_id (buildJoinTable N ids jn t tt sr tr jp) = joinTableId ids"
  "t_name (buildJoinTable N ids jn t tt sr tr jp) = jn"
  by (simp_all add: buildJoinTable_def Let_def split: prod.splits)

text \<open>
  C5, as stated, on two models that meet its conditions (\<open>orders\<close> holds the
  non-primary-key column \<open>customer_id\<close>, whose foreign key references the unique column
  \<open>id\<close> of \<open>customers\<close>). When \<open>customer_id\<close> is the only column of \<open>orders\<close>, no
  reference column can be picked on the side of \<open>orders\<close> and the conversion returns
  \<open>False\<close> with the state unchanged. When the schema already holds a table named
  \<open>customers_orders\<close>, the conversion succeeds and the new join table (id \<open>n1\<close>) is named
  \<open>customers_orders_2\<close>.
\<close>

theorem convert_orders_customers_fails:
  "convertForeignKeyToManyToMany specNaming lexCompare exampleIds ''t2'' ''f1'' ordersOnlyFkState
     = (False, ordersOnlyFkState)
   \<and> map (\<lambda>t. (t_id t, t_name t))
       (tables (model (snd (convertForeignKeyToManyToMany specNaming lexCompare exampleIds
                              ''t2'' ''f1'' ordersTakenNameState))))
     = [(''t1'', ''customers''), (''t2'', ''orders''), (''n1'', ''customers_orders_2''),
        (''t3'', ''customers_orders'')]"
proof
  show "convertForeignKeyToManyToMany specNaming lexCompare exampleIds ''t2'' ''f1'' ordersOnlyFkState
     = (False, ordersOnlyFkState)"
    by (simp add: convertForeignKeyToManyToMany_def ordersOnlyFkState_def mkState_def mkTable_def
        mkColumn_def mkFk_def pickReferenceColumn_def first_some_def truthy_def Let_def)
next
  have n: "joinTableName_of specNaming lexCompare
             (mkTable ''t2'' ''s1'' ''orders''
                [mkColumn ''c2'' ''id'' ''uuid'' True True,
                 mkColumn ''c3'' ''customer_id'' ''uuid'' False False]
                [mkFk ''f1'' ''orders_customer_id_fk'' ''c3'' ''t1'' ''c1''])
             (mkTable ''t1'' ''s1'' ''customers'' [mkColumn ''c1'' ''id'' ''uuid'' True True] [])
             (filter (\<lambda>t. t_schemaId t = ''s1'') (tables (model ordersTakenNameState)))
           = ''customers_orders_2''"
    by (simp add: joinTableName_of_def js_sort_def or_else_def ensureUniqueName_def trim_def
        is_ws_def specNaming_def toSnakeCase_spec_def is_alnum_def to_lower_def
        ordersTakenNameState_def mkState_def mkTable_def unique_loop.simps candidate_def
        string_of_nat.simps digit_char_def Let_def)
  show "map (\<lambda>t. (t_id t, t_name t))
       (tables (model (snd (convertForeignKeyToManyToMany specNaming lexCompare exampleIds
                              ''t2'' ''f1'' ordersTakenNameState))))
     = [(''t1'', ''customers''), (''t2'', ''orders''), (''n1'', ''customers_orders_2''),
        (''t3'', ''customers_orders'')]"
    using n
    by (simp add: convertForeignKeyToManyToMany_def ordersTakenNameState_def mkState_def mkTable_def
        mkColumn_def mkFk_def pickReferenceColumn_def first_some_def truthy_def Let_def
        sanitizeTables_def buildJoinTable_head exampleIds_def split: prod.splits)
qed

text \<open>
  C5, amended. The table \<open>orders\<close> (found by \<open>tableId\<close>) owns the foreign key \<open>fkId\<close>,
  whose source column \<open>customer_id\<close> is not a primary key and whose target column \<open>idcol\<close>
  belongs to the table \<open>customers\<close>. If moreover \<open>orders\<close> has a column other than
  \<open>customer_id\<close> and no table of its schema is already named \<open>customers_orders\<close> (and
  the collation puts \<open>customers\<close> before \<open>orders\<close>, and \<open>toSnakeCase\<close> leaves
  \<open>customers_orders\<close> as it is), then the conversion returns \<open>True\<close>; in the new model
  \<open>orders\<close> (at its old index) has no column with the id of \<open>customer_id\<close> and no
  foreign key with the id \<open>fkId\<close>; the table after it is new, is named
  \<open>customers_orders\<close>, has exactly two columns, both primary keys, and exactly two foreign
  keys, the first many-to-one into \<open>orders\<close> and the second many-to-one into \<open>customers\<close>.
\<close>

theorem convert_orders_customers:
  assumes tbl: "find (\<lambda>t. t_id t = tableId) (tables (model st)) = Some orders"
    and fk: "find (\<lambda>f. fk_id f = fkId) (foreignKeys orders) = Some fk"
    and src: "find (\<lambda>c. c_id c = fromColumnId fk) (columns orders) = Some customer_id"
    and tgt: "find (\<lambda>t. t_id t = toTableId fk) (tables (model st)) = Some customers"
    and tcol: "find (\<lambda>c. c_id c = toColumnId fk) (columns customers) = Some idcol"
    and n1: "t_name orders = ''orders''" and n2: "t_name customers = ''customers''"
    and npk: "\<not> isPrimaryKey customer_id"
    and other: "list_ex (\<lambda>c. c_id c \<noteq> c_id customer_id) (columns orders)"
    and free: "''customers_orders'' \<notin> set (map t_name
                 (filter (\<lambda>t. t_schemaId t = t_schemaId orders) (tables (model st))))"
    and snake: "toSnakeCase N ''customers_orders'' = ''customers_orders''"
    and coll: "0 < lc ''orders'' ''customers''"
  shows "\<exists>st' i orders' joinT l r fl fr.
           convertForeignKeyToManyToMany N lc ids tableId fkId st = (True, st')
         \<and> findIndex (\<lambda>t. t_id t = tableId) (tables (model st)) = Some i
         \<and> length (tables (model st')) = Suc (length (tables (model st)))
         \<and> tables (model st') ! i = orders'
         \<and> t_id orders' = tableId \<and> t_name orders' = ''orders''
         \<and> \<not> list_ex (\<lambda>c. c_id c = c_id customer_id) (columns orders')
         \<and> \<not> list_ex (\<lambda>f. fk_id f = fkId) (foreignKeys orders')
         \<and> tables (model st') ! Suc i = joinT
         \<and> t_id joinT = joinTableId ids \<and> t_name joinT = ''customers_orders''
         \<and> columns joinT = [l, r] \<and> isPrimaryKey l \<and> isPrimaryKey r
         \<and> foreignKeys joinT = [fl, fr]
         \<and> manyToOneInto (t_id orders) fl \<and> manyToOneInto (t_id customers) fr"
proof -
  let ?ts = "tables (model st)"
  from tbl obtain i where i: "findIndex (\<lambda>t. t_id t = tableId) ?ts = Some i" and oi: "?ts ! i = orders"
    using find_findIndex by (metis (mono_tags, lifting))
  from i have ilen: "i < length ?ts" using findIndex_find_Some by (metis (mono_tags, lifting))
  from tbl have oid: "t_id orders = tableId" by (auto dest: find_SomeD)
  from fk obtain j where j: "findIndex (\<lambda>f. fk_id f = fkId) (foreignKeys orders) = Some j"
    and fj: "foreignKeys orders ! j = fk"
    using find_findIndex by (metis (mono_tags, lifting))
  from fk have fid: "fk_id fk = fkId" by (auto dest: find_SomeD)
  from src have sid: "c_id customer_id = fromColumnId fk" by (auto dest: find_SomeD)
  from tgt obtain k where k: "findIndex (\<lambda>t. t_id t = toTableId fk) ?ts = Some k"
    and ck: "?ts ! k = customers"
    using find_findIndex by (metis (mono_tags, lifting))
  from other obtain sr where
    sr: "pickReferenceColumn orders (Some (c_id customer_id)) [c_id customer_id] = Some sr"
    using pickReferenceColumn_Some [of "[c_id customer_id]" orders "Some (c_id customer_id)"]
    by auto
  from tcol have "list_ex (\<lambda>c. c_id c \<notin> set []) (columns customers)"
    by (auto simp: list_ex_iff dest: find_SomeD)
  then obtain tr where tr: "pickReferenceColumn customers (Some (c_id idcol)) [] = Some tr"
    using pickReferenceColumn_Some [of "[]" customers "Some (c_id idcol)"] by auto
  have jn: "joinTableName_of N lc orders customers
              (filter (\<lambda>t. t_schemaId t = t_schemaId orders) ?ts) = ''customers_orders''"
    using n1 n2 free snake coll by (rule joinTableName_orders_customers)
  obtain sp tp jp where lay: "layout (t_position orders) (t_position customers) = (sp, tp, jp)"
    by (cases "layout (t_position orders) (t_position customers)")
  let ?joinT = "buildJoinTable N ids ''customers_orders'' orders customers sr tr jp"
  let ?san = "sanitizeTables i k fk (c_id customer_id) True sp tp ?ts"
  let ?next = "take (i + 1) ?san @ [?joinT] @ drop (i + 1) ?san"
  let ?st' = "st\<lparr> model := (model st)\<lparr> tables := ?next \<rparr>,
                  selectedTableId := Some (joinTableId ids),
                  selectedColumnId := Some (leftColumnId ids) \<rparr>"
  have conv: "convertForeignKeyToManyToMany N lc ids tableId fkId st = (True, ?st')"
    using i oi j fj src k ck tcol npk sr tr jn lay
    by (simp add: convertForeignKeyToManyToMany_def Let_def)
  have len: "length ?next = Suc (length ?ts)"
    using ilen by (simp add: length_sanitizeTables)
  have at_i: "?next ! i = ?san ! i"
    using ilen by (simp add: nth_append length_sanitizeTables)
  have at_Si: "?next ! Suc i = ?joinT"
    using ilen by (simp add: nth_append length_sanitizeTables min_def)
  have san_i: "?san ! i = orders\<lparr> columns := filter (\<lambda>c. c_id c \<noteq> c_id customer_id) (columns orders),
               foreignKeys := filter (\<lambda>item. fk_id item \<noteq> fk_id fk \<and>
                                 fromColumnId item \<noteq> c_id customer_id) (foreignKeys orders),
               t_position := Some sp \<rparr>"
    using ilen oi by (simp add: nth_sanitizeTables)
  obtain l r fl fr where cols: "columns ?joinT = [l, r]" and pk: "isPrimaryKey l" "isPrimaryKey r"
    and fks: "foreignKeys ?joinT = [fl, fr]"
    and m1: "manyToOneInto (t_id orders) fl" and m2: "manyToOneInto (t_id customers) fr"
    using buildJoinTable_shape [of N ids "''customers_orders''" orders customers sr tr jp] by blast
  have jid: "t_id ?joinT = joinTableId ids" and jname: "t_name ?joinT = ''customers_orders''"
    by (simp_all add: buildJoinTable_head)
  have o1: "t_id (?san ! i) = tableId" "t_name (?san ! i) = ''orders''"
    using san_i oid n1 by simp_all
  have o2: "\<not> list_ex (\<lambda>c. c_id c = c_id customer_id) (columns (?san ! i))"
    using san_i by (simp add: list_ex_iff)
  have o3: "\<not> list_ex (\<lambda>f. fk_id f = fkId) (foreignKeys (?san ! i))"
    using san_i fid by (simp add: list_ex_iff)
  show ?thesis
    using conv i len at_i at_Si o1 o2 o3 jid jname cols pk fks m1 m2
    by (intro exI [of _ ?st'] exI [of _ i] exI [of _ "?san ! i"] exI [of _ ?joinT]
          exI [of _ l] exI [of _ r] exI [of _ fl] exI [of _ fr]) simp
qed

theorem convert_orders_customers_witness:
  "\<exists>st' i orders' joinT l r fl fr.
      convertForeignKeyToManyToMany specNaming lexCompare exampleIds ''t2'' ''f1'' ordersState
        = (True, st')
    \<and> findIndex (\<lambda>t. t_id t = ''t2'') (tables (model ordersState)) = Some i
    \<and> length (tables (model st')) = Suc (length (tables (model ordersState)))
    \<and> tables (model st') ! i = orders'
    \<and> t_id orders' = ''t2'' \<and> t_name orders' = ''orders''
    \<and> \<not> list_ex (\<lambda>c. c_id c = c_id (mkColumn ''c3'' ''customer_id'' ''uuid'' False False))
          (columns orders')
    \<and> \<not> list_ex (\<lambda>f. fk_id f = ''f1'') (foreignKeys orders')
    \<and> tables (model st') ! Suc i = joinT
    \<and> t_id joinT = joinTableId exampleIds \<and> t_name joinT = ''customers_orders''
    \<and> columns joinT = [l, r] \<and> isPrimaryKey l \<and> isPrimaryKey r
    \<and> foreignKeys joinT = [fl, fr]
    \<and> manyToOneInto
          (t_id (mkTable ''t2'' ''s1'' ''orders''
             [mkColumn ''c2'' ''id'' ''uuid'' True True,
              mkColumn ''c3'' ''customer_id'' ''uuid'' False False]
             [mkFk ''f1'' ''orders_customer_id_fk'' ''c3'' ''t1'' ''c1''])) fl
    \<and> manyToOneInto
          (t_id (mkTable ''t1'' ''s1'' ''customers'' [mkColumn ''c1'' ''id'' ''uuid'' True True] []))
          fr"
  by (rule convert_orders_customers
        [where fk = "mkFk ''f1'' ''orders_customer_id_fk'' ''c3'' ''t1'' ''c1''"
           and idcol = "mkColumn ''c1'' ''id'' ''uuid'' True True"])
     (simp_all add: ordersState_def mkState_def mkTable_def mkColumn_def mkFk_def specNaming_def
        toSnakeCase_spec_def is_alnum_def to_lower_def)

section \<open>Index names\<close>

lemma length_indexNames: "length (indexNames N table used cols) = length cols"
  by (induction cols arbitrary: used) (simp_all add: Let_def)

lemma length_indexStatements: "length (indexStatements N table schemaName used cols) = length cols"
  by (induction cols arbitrary: used) (simp_all add: Let_def)

lemma indexStatements_nth:
  "k < length cols \<Longrightarrow>
   indexStatements N table schemaName used cols ! k
     = indexStatement table schemaName (indexNames N table used cols ! k) (cols ! k)"
proof (induction cols arbitrary: used k)
  case Nil
  then show ?case by simp
next
  case (Cons c cols)
  show ?case
  proof (cases k)
    case 0
    then show ?thesis by (simp add: Let_def indexStatement_def)
  next
    case (Suc j)
    with Cons.prems have "j < length cols" by simp
    from Cons.IH [OF this] Suc show ?thesis by (simp add: Let_def)
  qed
qed

lemma indexNames_nth:
  "k < length cols \<Longrightarrow>
   \<exists>u. set u = set used \<union> set (take k (indexNames N table used cols))
     \<and> indexNames N table used cols ! k
         = ensureUniqueConstraintName N (indexBase N table (cols ! k)) u"
proof (induction cols arbitrary: used k)
  case Nil
  then show ?case by simp
next
  case (Cons c cols)
  let ?n = "ensureUniqueConstraintName N (indexBase N table c) used"
  show ?case
  proof (cases k)
    case 0
    then show ?thesis by (auto simp: Let_def intro: exI [of _ used])
  next
    case (Suc j)
    with Cons.prems have "j < length cols" by simp
    from Cons.IH [OF this, of "set_add ?n used"] obtain u where
      u: "set u = set (set_add ?n used) \<union> set (take j (indexNames N table (set_add ?n used) cols))"
        "indexNames N table (set_add ?n used) cols ! j
           = ensureUniqueConstraintName N (indexBase N table (cols ! j)) u"
      by blast
    show ?thesis using u Suc by (intro exI [of _ u]) (auto simp: Let_def set_set_add)
  qed
qed

lemma indexBase_snake:
  assumes "toSnakeCase N (t_name table @ ''_'' @ c_name column @ ''_idx'')
             = t_name table @ ''_'' @ c_name column @ ''_idx''"
    and "\<not> startsWith (t_name table @ ''_'' @ c_name column @ ''_idx'') ''idx_''"
  shows "indexBase N table column = ''idx_'' @ t_name table @ ''_'' @ c_name column @ ''_idx''"
  using assms by (simp add: indexBase_def or_else_def Let_def)

text \<open>
  C7, as stated, on the table \<open>users\<close> with one indexed column \<open>email\<close>: the claim gives
  the index the name \<open>idx_users_email\<close>. The generator emits one statement, and its index
  is named \<open>idx_users_email_idx\<close>: the base is built as \<open><table>_<column>_idx\<close> and then
  prefixed with \<open>idx_\<close>. (The naming functions are the reference instance; any
  \<open>toSnakeCase\<close> that leaves \<open>users_email_idx\<close> as it is gives the same name.)
\<close>

theorem index_name_has_idx_suffix:
  "buildIndexesForTable specNaming usersTable ''public''
     = [indexStatement usersTable ''public'' ''idx_users_email_idx''
          ((mkColumn ''c2'' ''email'' ''text'' False False)\<lparr> isIndexed := Some True \<rparr>)]
   \<and> toSnakeCase specNaming ''idx_users_email'' = ''idx_users_email''
   \<and> indexStatement usersTable ''public'' ''idx_users_email''
          ((mkColumn ''c2'' ''email'' ''text'' False False)\<lparr> isIndexed := Some True \<rparr>)
        \<notin> set (buildIndexesForTable specNaming usersTable ''public'')"
  by (simp add: buildIndexesForTable_def indexedColumns_def usersTable_def mkTable_def mkColumn_def
      indexBase_def specNaming_def toSnakeCase_spec_def is_alnum_def to_lower_def or_else_def
      startsWith_def ensureUniqueConstraintName_spec_def indexStatement_def Let_def
      quoteIdent_def double_char_def dquote_def qualify_def)

text \<open>
  C7, amended. For every table, \<open>buildIndexesForTable\<close> emits exactly one
  \<open>CREATE INDEX\<close> statement per column that is indexed and neither primary key nor
  unique, in column order. The name of the \<open>k\<close>-th index is
  \<open>ensureUniqueConstraintName(base, used)\<close>, where \<open>used\<close> holds the names of the indexes
  generated before it for this table and \<open>base\<close> is \<open>indexBase\<close>: \<open>toSnakeCase\<close> of
  \<open><table>_<column>_idx\<close>, prefixed with \<open>idx_\<close> unless it starts with it. When that text is
  already in snake case, the base is \<open>idx_<table>_<column>_idx\<close>.
\<close>

theorem buildIndexesForTable_names:
  "length (buildIndexesForTable N table schemaName) = length (indexedColumns table)
   \<and> (\<forall>k < length (indexedColumns table).
        buildIndexesForTable N table schemaName ! k
          = indexStatement table schemaName
              (indexNames N table [] (indexedColumns table) ! k) (indexedColumns table ! k)
        \<and> (\<exists>u. set u = set (take k (indexNames N table [] (indexedColumns table)))
              \<and> indexNames N table [] (indexedColumns table) ! k
                  = ensureUniqueConstraintName N (indexBase N table (indexedColumns table ! k)) u)
        \<and> (toSnakeCase N (t_name table @ ''_'' @ c_name (indexedColumns table ! k) @ ''_idx'')
              = t_name table @ ''_'' @ c_name (indexedColumns table ! k) @ ''_idx''
            \<and> \<not> startsWith (t_name table @ ''_'' @ c_name (indexedColumns table ! k) @ ''_idx'')
                  ''idx_''
            \<longrightarrow> indexBase N table (indexedColumns table ! k)
                  = ''idx_'' @ t_name table @ ''_'' @ c_name (indexedColumns table ! k) @ ''_idx''))"
proof (intro conjI allI impI)
  show "length (buildIndexesForTable N table schemaName) = length (indexedColumns table)"
    by (simp add: buildIndexesForTable_def length_indexStatements)
next
  fix k assume "k < length (indexedColumns table)"
  then show "buildIndexesForTable N table schemaName ! k
          = indexStatement table schemaName
              (indexNames N table [] (indexedColumns table) ! k) (indexedColumns table ! k)"
    by (simp add: buildIndexesForTable_def indexStatements_nth)
next
  fix k assume "k < length (indexedColumns table)"
  from indexNames_nth [OF this, of "[]" N table]
  show "\<exists>u. set u = set (take k (indexNames N table [] (indexedColumns table)))
              \<and> indexNames N table [] (indexedColumns table) ! k
                  = ensureUniqueConstraintName N (indexBase N table (indexedColumns table ! k)) u"
    by simp
next
  fix k
  assume "toSnakeCase N (t_name table @ ''_'' @ c_name (indexedColumns table ! k) @ ''_idx'')
              = t_name table @ ''_'' @ c_name (indexedColumns table ! k) @ ''_idx''
            \<and> \<not> startsWith (t_name table @ ''_'' @ c_name (indexedColumns table ! k) @ ''_idx'')
                  ''idx_''"
  then show "indexBase N table (indexedColumns table ! k)
                  = ''idx_'' @ t_name table @ ''_'' @ c_name (indexedColumns table ! k) @ ''_idx''"
    by (simp add: indexBase_snake)
qed

theorem buildIndexesForTable_names_witness:
  "0 < length (indexedColumns usersTable)
   \<and> buildIndexesForTable specNaming usersTable ''public'' ! 0
       = indexStatement usersTable ''public''
           (indexNames specNaming usersTable [] (indexedColumns usersTable) ! 0)
           (indexedColumns usersTable ! 0)
   \<and> indexNames specNaming usersTable [] (indexedColumns usersTable) ! 0 = ''idx_users_email_idx''
   \<and> indexBase specNaming usersTable (indexedColumns usersTable ! 0) = ''idx_users_email_idx''"
proof -
  have h: "0 < length (indexedColumns usersTable)"
    by (simp add: indexedColumns_def usersTable_def mkTable_def mkColumn_def)
  have s: "toSnakeCase specNaming (t_name usersTable @ ''_'' @ c_name (indexedColumns usersTable ! 0) @ ''_idx'')
             = t_name usersTable @ ''_'' @ c_name (indexedColumns usersTable ! 0) @ ''_idx''
           \<and> \<not> startsWith (t_name usersTable @ ''_'' @ c_name (indexedColumns usersTable ! 0) @ ''_idx'')
                 ''idx_''"
    by (simp add: indexedColumns_def usersTable_def mkTable_def mkColumn_def specNaming_def
        toSnakeCase_spec_def is_alnum_def to_lower_def startsWith_def)
  have n: "indexNames specNaming usersTable [] (indexedColumns usersTable) ! 0 = ''idx_users_email_idx''"
    by (simp add: indexedColumns_def usersTable_def mkTable_def mkColumn_def specNaming_def
        indexBase_def toSnakeCase_spec_def is_alnum_def to_lower_def startsWith_def or_else_def
        ensureUniqueConstraintName_spec_def Let_def)
  have e: "''idx_'' @ t_name usersTable @ ''_'' @ c_name (indexedColumns usersTable ! 0) @ ''_idx''
             = ''idx_users_email_idx''"
    by (simp add: indexedColumns_def usersTable_def mkTable_def mkColumn_def)
  from buildIndexesForTable_names [of specNaming usersTable "''public''"] h
  have a: "buildIndexesForTable specNaming usersTable ''public'' ! 0
       = indexStatement usersTable ''public''
           (indexNames specNaming usersTable [] (indexedColumns usersTable) ! 0)
           (indexedColumns usersTable ! 0)"
    and b: "toSnakeCase specNaming (t_name usersTable @ ''_'' @ c_name (indexedColumns usersTable ! 0) @ ''_idx'')
             = t_name usersTable @ ''_'' @ c_name (indexedColumns usersTable ! 0) @ ''_idx''
           \<and> \<not> startsWith (t_name usersTable @ ''_'' @ c_name (indexedColumns usersTable ! 0) @ ''_idx'')
                 ''idx_''
           \<longrightarrow> indexBase specNaming usersTable (indexedColumns usersTable ! 0)
                 = ''idx_'' @ t_name usersTable @ ''_'' @ c_name (indexedColumns usersTable ! 0) @ ''_idx''"
    by blast+
  from b s have "indexBase specNaming usersTable (indexedColumns usersTable ! 0)
                 = ''idx_'' @ t_name usersTable @ ''_'' @ c_name (indexedColumns usersTable ! 0) @ ''_idx''"
    by blast
  with e have "indexBase specNaming usersTable (indexedColumns usersTable ! 0) = ''idx_users_email_idx''"
    by simp
  with h a n show ?thesis by blast
qed

section \<open>Topological order of the tables\<close>

lemma lk_update: "lk (AList.update k v m) i = (if i = k then set v else lk m i)"
  by (simp add: lk_def update_conv')

lemma map_of_update_None: "map_of (AList.update k v m) i \<noteq> None \<longleftrightarrow> i = k \<or> map_of m i \<noteq> None"
  by (simp add: update_conv')

lemma fkStep_eq:
  "fkStep tb t fk (deps, dts) =
     (if isDep tb t fk
      then (set_add (toTableId fk) deps,
            AList.update (toTableId fk)
              (set_add (t_id t) (case map_of dts (toTableId fk) of Some d \<Rightarrow> d | None \<Rightarrow> [])) dts)
      else (deps, dts))"
  by (auto simp: fkStep_def isDep_def Let_def)

lemma fold_fkStep:
  "fold (fkStep tb t) fks (deps, dts) = (deps1, dts1) \<Longrightarrow>
     set deps1 = set deps \<union> toTableId ` {fk \<in> set fks. isDep tb t fk}
     \<and> (\<forall>d. lk dts1 d = lk dts d \<union> (if d \<in> toTableId ` {fk \<in> set fks. isDep tb t fk} then {t_id t} else {}))"
proof (induction fks arbitrary: deps dts)
  case Nil
  then show ?case by simp
next
  case (Cons fk fks)
  show ?case
  proof (cases "isDep tb t fk")
    case False
    with Cons.prems have "fold (fkStep tb t) fks (deps, dts) = (deps1, dts1)"
      by (simp add: fkStep_eq)
    have eq: "toTableId ` {f \<in> set (fk # fks). isDep tb t f}
                = toTableId ` {f \<in> set fks. isDep tb t f}"
      using False by auto
    from Cons.IH [OF \<open>fold (fkStep tb t) fks (deps, dts) = (deps1, dts1)\<close>] show ?thesis
      unfolding eq by blast
  next
    case True
    let ?i = "toTableId fk"
    let ?dts = "AList.update ?i (set_add (t_id t) (case map_of dts ?i of Some d \<Rightarrow> d | None \<Rightarrow> [])) dts"
    from True Cons.prems have "fold (fkStep tb t) fks (set_add ?i deps, ?dts) = (deps1, dts1)"
      by (simp add: fkStep_eq)
    from Cons.IH [OF this]
    have a: "set deps1 = set (set_add ?i deps) \<union> toTableId ` {fk \<in> set fks. isDep tb t fk}"
      and b: "\<And>d. lk dts1 d = lk ?dts d \<union> (if d \<in> toTableId ` {fk \<in> set fks. isDep tb t fk} then {t_id t} else {})"
      by blast+
    have c0: "set (set_add (t_id t) (case map_of dts ?i of Some d \<Rightarrow> d | None \<Rightarrow> []))
                = insert (t_id t) (lk dts ?i)"
      by (simp add: set_set_add lk_def split: option.splits)
    have c: "\<And>d. lk ?dts d = (if d = ?i then insert (t_id t) (lk dts ?i) else lk dts d)"
      unfolding lk_update c0 by simp
    have eq: "toTableId ` {f \<in> set (fk # fks). isDep tb t f}
                = insert ?i (toTableId ` {f \<in> set fks. isDep tb t f})"
      using True by auto
    show ?thesis
    proof (intro conjI allI)
      show "set deps1 = set deps \<union> toTableId ` {f \<in> set (fk # fks). isDep tb t f}"
        unfolding eq a by (simp add: set_set_add)
    next
      fix d
      show "lk dts1 d = lk dts d \<union> (if d \<in> toTableId ` {f \<in> set (fk # fks). isDep tb t f} then {t_id t} else {})"
        unfolding eq b [of d] c [of d] by auto
    qed
  qed
qed

lemma tableStep_props:
  assumes "tableStep tb t (dm, dts) = (dm1, dts1)"
  shows "\<exists>deps. dm1 = AList.update (t_id t) deps dm \<and> set deps = depsOf tb t"
    and "\<And>d. lk dts1 d = lk dts d \<union> (if d \<in> depsOf tb t then {t_id t} else {})"
proof -
  obtain deps dts' where f: "fold (fkStep tb t) (foreignKeys t) ([], dts) = (deps, dts')"
    by (cases "fold (fkStep tb t) (foreignKeys t) ([], dts)")
  with assms have e: "dm1 = AList.update (t_id t) deps dm" "dts1 = dts'"
    by (simp_all add: tableStep_def)
  from fold_fkStep [OF f] have s: "set deps = depsOf tb t"
    and l: "\<And>d. lk dts' d = lk dts d \<union> (if d \<in> depsOf tb t then {t_id t} else {})"
    by (simp_all add: depsOf_def)
  from e s show "\<exists>deps. dm1 = AList.update (t_id t) deps dm \<and> set deps = depsOf tb t" by blast
  from e l show "\<And>d. lk dts1 d = lk dts d \<union> (if d \<in> depsOf tb t then {t_id t} else {})" by simp
qed

lemma fold_tableStep:
  "fold (tableStep tb) ts (dm, dts) = (dm1, dts1) \<Longrightarrow>
     (\<forall>d. lk dts1 d = lk dts d \<union> {t_id t | t. t \<in> set ts \<and> d \<in> depsOf tb t})
     \<and> (\<forall>i. i \<notin> t_id ` set ts \<longrightarrow> map_of dm1 i = map_of dm i)
     \<and> (distinct (map t_id ts) \<longrightarrow>
          (\<forall>t\<in>set ts. map_of dm1 (t_id t) \<noteq> None \<and> lk dm1 (t_id t) = depsOf tb t))"
proof (induction ts arbitrary: dm dts)
  case Nil
  then show ?case by simp
next
  case (Cons t ts)
  obtain dm' dts' where st: "tableStep tb t (dm, dts) = (dm', dts')"
    by (cases "tableStep tb t (dm, dts)")
  with Cons.prems have f: "fold (tableStep tb) ts (dm', dts') = (dm1, dts1)" by simp
  from tableStep_props [OF st] obtain deps where
    d1: "dm' = AList.update (t_id t) deps dm" "set deps = depsOf tb t"
    and d2: "\<And>d. lk dts' d = lk dts d \<union> (if d \<in> depsOf tb t then {t_id t} else {})"
    by blast
  from Cons.IH [OF f]
  have i1: "\<And>d. lk dts1 d = lk dts' d \<union> {t_id t | t. t \<in> set ts \<and> d \<in> depsOf tb t}"
    and i2: "\<And>i. i \<notin> t_id ` set ts \<Longrightarrow> map_of dm1 i = map_of dm' i"
    and i3: "distinct (map t_id ts) \<Longrightarrow>
          (\<forall>t\<in>set ts. map_of dm1 (t_id t) \<noteq> None \<and> lk dm1 (t_id t) = depsOf tb t)"
    by blast+
  show ?case
  proof (intro conjI allI impI ballI)
    fix d
    show "lk dts1 d = lk dts d \<union> {t_id ta | ta. ta \<in> set (t # ts) \<and> d \<in> depsOf tb ta}"
      using i1 [of d] d2 [of d] by auto
  next
    fix i assume "i \<notin> t_id ` set (t # ts)"
    then show "map_of dm1 i = map_of dm i"
      using i2 [of i] d1 by (simp add: update_conv')
  next
    fix u assume dist: "distinct (map t_id (t # ts))" and u: "u \<in> set (t # ts)"
    show "map_of dm1 (t_id u) \<noteq> None"
    proof (cases "u \<in> set ts")
      case True
      with i3 dist show ?thesis by simp
    next
      case False
      with u have "u = t" by simp
      with dist have "t_id u \<notin> t_id ` set ts" by auto
      with i2 have "map_of dm1 (t_id u) = map_of dm' (t_id u)" by simp
      with d1 \<open>u = t\<close> show ?thesis by (simp add: update_conv')
    qed
  next
    fix u assume dist: "distinct (map t_id (t # ts))" and u: "u \<in> set (t # ts)"
    show "lk dm1 (t_id u) = depsOf tb u"
    proof (cases "u \<in> set ts")
      case True
      with i3 dist show ?thesis by simp
    next
      case False
      with u have "u = t" by simp
      with dist have "t_id u \<notin> t_id ` set ts" by auto
      with i2 have "map_of dm1 (t_id u) = map_of dm' (t_id u)" by simp
      with d1 \<open>u = t\<close> show ?thesis by (simp add: update_conv' lk_def)
    qed
  qed
qed

lemma buildMaps_props:
  assumes "buildMaps tb ts = (dm, dts)"
  shows "\<And>d. lk dts d = {t_id t | t. t \<in> set ts \<and> d \<in> depsOf tb t}"
    and "distinct (map t_id ts) \<Longrightarrow> t \<in> set ts \<Longrightarrow> map_of dm (t_id t) \<noteq> None \<and> lk dm (t_id t) = depsOf tb t"
  using fold_tableStep [of tb ts "[]" "[]" dm dts] assms
  by (auto simp: buildMaps_def lk_def)

lemma release_eq:
  "release cmp c d (dm, q) =
     (case map_of dm d of
        None \<Rightarrow> (dm, q)
      | Some deps \<Rightarrow>
          (AList.update d (removeAll c deps) dm,
           if removeAll c deps = [] then insertReady cmp d q else q))"
  by (auto simp: release_def Let_def split: option.splits)

lemma release_props:
  assumes "release cmp c d (dm, q) = (dm1, q1)"
  shows "\<And>i. (map_of dm1 i \<noteq> None) = (map_of dm i \<noteq> None)"
    and "\<And>i. lk dm1 i = (if i = d then lk dm i - {c} else lk dm i)"
    and "set q1 = set q \<union> (if map_of dm d \<noteq> None \<and> lk dm d - {c} = {} then {d} else {})"
proof -
  show "\<And>i. (map_of dm1 i \<noteq> None) = (map_of dm i \<noteq> None)"
    using assms by (auto simp: release_eq update_conv' split: option.splits if_splits)
  show "\<And>i. lk dm1 i = (if i = d then lk dm i - {c} else lk dm i)"
  proof (cases "map_of dm d")
    case None
    fix i from None assms show "lk dm1 i = (if i = d then lk dm i - {c} else lk dm i)"
      by (auto simp: release_eq lk_def)
  next
    case (Some deps)
    fix i
    from Some assms have "dm1 = AList.update d (removeAll c deps) dm" by (simp add: release_eq)
    then show "lk dm1 i = (if i = d then lk dm i - {c} else lk dm i)"
      using Some by (simp add: lk_update) (simp add: lk_def)
  qed
  show "set q1 = set q \<union> (if map_of dm d \<noteq> None \<and> lk dm d - {c} = {} then {d} else {})"
  proof (cases "map_of dm d")
    case None
    with assms show ?thesis by (simp add: release_eq)
  next
    case (Some deps)
    have "(removeAll c deps = []) = (set deps - {c} = {})"
      by (metis set_empty set_removeAll)
    with Some assms show ?thesis
      by (auto simp: release_eq lk_def set_insertReady split: if_splits)
  qed
qed

lemma fold_release_props:
  "fold (release cmp c) ds (dm, q) = (dm1, q1) \<Longrightarrow>
     (\<forall>i. (map_of dm1 i \<noteq> None) = (map_of dm i \<noteq> None))
     \<and> (\<forall>i. lk dm1 i = (if i \<in> set ds then lk dm i - {c} else lk dm i))
     \<and> set q1 = set q \<union> {d \<in> set ds. map_of dm d \<noteq> None \<and> lk dm d - {c} = {}}"
proof (induction ds arbitrary: dm q)
  case Nil
  then show ?case by simp
next
  case (Cons d ds)
  obtain dm' q' where r: "release cmp c d (dm, q) = (dm', q')"
    by (cases "release cmp c d (dm, q)")
  with Cons.prems have f: "fold (release cmp c) ds (dm', q') = (dm1, q1)" by simp
  note p = release_props [OF r]
  from Cons.IH [OF f]
  have i1: "\<And>i. (map_of dm1 i \<noteq> None) = (map_of dm' i \<noteq> None)"
    and i2: "\<And>i. lk dm1 i = (if i \<in> set ds then lk dm' i - {c} else lk dm' i)"
    and i3: "set q1 = set q' \<union> {d \<in> set ds. map_of dm' d \<noteq> None \<and> lk dm' d - {c} = {}}"
    by blast+
  have l: "\<And>i. lk dm' i - {c} = lk dm i - {c}" using p(2) by auto
  show ?case
  proof (intro conjI allI)
    fix i show "(map_of dm1 i \<noteq> None) = (map_of dm i \<noteq> None)" using i1 p(1) by simp
  next
    fix i show "lk dm1 i = (if i \<in> set (d # ds) then lk dm i - {c} else lk dm i)"
      using i2 [of i] p(2) [of i] l [of i] by auto
  next
    have "{x \<in> set ds. map_of dm' x \<noteq> None \<and> lk dm' x - {c} = {}}
            = {x \<in> set ds. map_of dm x \<noteq> None \<and> lk dm x - {c} = {}}"
      using p(1) l by simp
    with i3 p(3)
    show "set q1 = set q \<union> {x \<in> set (d # ds). map_of dm x \<noteq> None \<and> lk dm x - {c} = {}}"
      by auto
  qed
qed

lemma kahnInvI:
  assumes "set (visited s) \<subseteq> t_id ` set ts" and "set (readyQueue s) \<subseteq> t_id ` set ts"
    and "distinct (visited s)" and "map t_id (ordered s) = visited s"
    and "set (ordered s) \<subseteq> set ts"
    and "\<And>t. t \<in> set ts \<Longrightarrow> map_of (dependencyMap s) (t_id t) \<noteq> None"
    and "\<And>t. t \<in> set ts \<Longrightarrow> lk (dependencyMap s) (t_id t) = depsOf tb t - set (visited s)"
    and "\<And>t. t \<in> set ts \<Longrightarrow> t_id t \<in> set (readyQueue s) \<union> set (visited s)
            \<Longrightarrow> depsOf tb t \<subseteq> set (visited s)"
    and "\<And>t. t \<in> set ts \<Longrightarrow> t_id t \<notin> set (visited s) \<Longrightarrow> depsOf tb t \<subseteq> set (visited s)
            \<Longrightarrow> t_id t \<in> set (readyQueue s)"
    and "\<And>k. k < length (ordered s) \<Longrightarrow> depsOf tb (ordered s ! k) \<subseteq> set (take k (visited s))"
  shows "kahnInv ts tb s"
  unfolding kahnInv_def by (intro conjI allI impI) (rule assms; assumption)+

lemma kahnInvD:
  assumes "kahnInv ts tb s"
  shows "set (visited s) \<subseteq> t_id ` set ts" and "set (readyQueue s) \<subseteq> t_id ` set ts"
    and "distinct (visited s)" and "map t_id (ordered s) = visited s"
    and "set (ordered s) \<subseteq> set ts"
    and "\<And>t. t \<in> set ts \<Longrightarrow> map_of (dependencyMap s) (t_id t) \<noteq> None"
    and "\<And>t. t \<in> set ts \<Longrightarrow> lk (dependencyMap s) (t_id t) = depsOf tb t - set (visited s)"
    and "\<And>t. t \<in> set ts \<Longrightarrow> t_id t \<in> set (readyQueue s) \<union> set (visited s)
            \<Longrightarrow> depsOf tb t \<subseteq> set (visited s)"
    and "\<And>t. t \<in> set ts \<Longrightarrow> t_id t \<notin> set (visited s) \<Longrightarrow> depsOf tb t \<subseteq> set (visited s)
            \<Longrightarrow> t_id t \<in> set (readyQueue s)"
    and "\<And>k. k < length (ordered s) \<Longrightarrow> depsOf tb (ordered s ! k) \<subseteq> set (take k (visited s))"
  using assms unfolding kahnInv_def by (elim conjE; (rule refl | assumption | (drule spec, erule mp, assumption) | blast))+

lemma depsOf_subset: "consistent ts tb \<Longrightarrow> depsOf tb t \<subseteq> t_id ` set ts"
  by (force simp: consistent_def depsOf_def isDep_def)

lemma depsOf_irrefl: "t_id t \<notin> depsOf tb t"
  by (auto simp: depsOf_def isDep_def)

lemma kahnInv_skip:
  assumes inv: "kahnInv ts tb s" and q: "readyQueue s = c # rest" and v: "c \<in> set (visited s)"
  shows "kahnInv ts tb (s\<lparr>readyQueue := rest\<rparr>)"
proof (rule kahnInvI)
  note d = kahnInvD [OF inv]
  show "set (visited (s\<lparr>readyQueue := rest\<rparr>)) \<subseteq> t_id ` set ts" using d(1) by simp
  show "set (readyQueue (s\<lparr>readyQueue := rest\<rparr>)) \<subseteq> t_id ` set ts" using d(2) q by simp
  show "distinct (visited (s\<lparr>readyQueue := rest\<rparr>))" using d(3) by simp
  show "map t_id (ordered (s\<lparr>readyQueue := rest\<rparr>)) = visited (s\<lparr>readyQueue := rest\<rparr>)"
    using d(4) by simp
  show "set (ordered (s\<lparr>readyQueue := rest\<rparr>)) \<subseteq> set ts" using d(5) by simp
  show "\<And>t. t \<in> set ts \<Longrightarrow> map_of (dependencyMap (s\<lparr>readyQueue := rest\<rparr>)) (t_id t) \<noteq> None"
    using d(6) by simp
  show "\<And>t. t \<in> set ts \<Longrightarrow> lk (dependencyMap (s\<lparr>readyQueue := rest\<rparr>)) (t_id t)
            = depsOf tb t - set (visited (s\<lparr>readyQueue := rest\<rparr>))"
    using d(7) by simp
  show "\<And>t. t \<in> set ts \<Longrightarrow>
          t_id t \<in> set (readyQueue (s\<lparr>readyQueue := rest\<rparr>)) \<union> set (visited (s\<lparr>readyQueue := rest\<rparr>))
          \<Longrightarrow> depsOf tb t \<subseteq> set (visited (s\<lparr>readyQueue := rest\<rparr>))"
    using d(8) q by simp
  show "\<And>t. t \<in> set ts \<Longrightarrow> t_id t \<notin> set (visited (s\<lparr>readyQueue := rest\<rparr>))
          \<Longrightarrow> depsOf tb t \<subseteq> set (visited (s\<lparr>readyQueue := rest\<rparr>))
          \<Longrightarrow> t_id t \<in> set (readyQueue (s\<lparr>readyQueue := rest\<rparr>))"
  proof -
    fix t assume "t \<in> set ts" and n: "t_id t \<notin> set (visited (s\<lparr>readyQueue := rest\<rparr>))"
      and "depsOf tb t \<subseteq> set (visited (s\<lparr>readyQueue := rest\<rparr>))"
    then have "t_id t \<in> set (c # rest)" using d(9) [of t] q by simp
    moreover from n v have "t_id t \<noteq> c" by auto
    ultimately show "t_id t \<in> set (readyQueue (s\<lparr>readyQueue := rest\<rparr>))" by simp
  qed
  show "\<And>k. k < length (ordered (s\<lparr>readyQueue := rest\<rparr>)) \<Longrightarrow>
          depsOf tb (ordered (s\<lparr>readyQueue := rest\<rparr>) ! k) \<subseteq> set (take k (visited (s\<lparr>readyQueue := rest\<rparr>)))"
    using d(10) by simp
qed

lemma kahnInv_visit:
  assumes con: "consistent ts tb" and dok: "dependentsOK ts tb dts"
    and inv: "kahnInv ts tb s" and q: "readyQueue s = c # rest"
    and nv: "c \<notin> set (visited s)"
    and t: "map_of tb c = Some t"
    and ds: "set ds = lk dts c"
    and f: "fold (release cmp c) ds (dependencyMap s, rest) = (dm1, q1)"
  shows "kahnInv ts tb (s\<lparr>dependencyMap := dm1, readyQueue := q1,
                          ordered := ordered s @ [t], visited := visited s @ [c]\<rparr>)"
proof -
  let ?V = "set (visited s)"
  let ?T = "t_id ` set ts"
  from con t have tin: "t \<in> set ts" and tid: "t_id t = c" by (auto simp: consistent_def)
  from con have "inj_on t_id (set ts)" by (simp add: consistent_def distinct_map)
  then have uniq: "\<And>a b. a \<in> set ts \<Longrightarrow> b \<in> set ts \<Longrightarrow> t_id a = t_id b \<Longrightarrow> a = b"
    by (rule inj_onD)
  note d = kahnInvD [OF inv]
  have a1: "?V \<subseteq> ?T" and a2: "set (c # rest) \<subseteq> ?T" and a3: "distinct (visited s)"
    and a4: "map t_id (ordered s) = visited s" and a5: "set (ordered s) \<subseteq> set ts"
    using d(1-5) q by simp_all
  have a6: "\<And>u. u \<in> set ts \<Longrightarrow> map_of (dependencyMap s) (t_id u) \<noteq> None
                \<and> lk (dependencyMap s) (t_id u) = depsOf tb u - ?V"
    using d(6,7) by simp
  have a7: "\<And>u. u \<in> set ts \<Longrightarrow> t_id u \<in> set (c # rest) \<union> ?V \<Longrightarrow> depsOf tb u \<subseteq> ?V"
    using d(8) q by simp
  have a8: "\<And>u. u \<in> set ts \<Longrightarrow> t_id u \<notin> ?V \<Longrightarrow> depsOf tb u \<subseteq> ?V \<Longrightarrow> t_id u \<in> set (c # rest)"
    using d(9) q by simp
  have a9: "\<And>k. k < length (ordered s) \<Longrightarrow> depsOf tb (ordered s ! k) \<subseteq> set (take k (visited s))"
    using d(10) by simp
  from dok ds have dsc: "set ds = {t_id u | u. u \<in> set ts \<and> c \<in> depsOf tb u}"
    by (simp add: dependentsOK_def)
  from fold_release_props [OF f]
  have r1: "\<And>i. (map_of dm1 i \<noteq> None) = (map_of (dependencyMap s) i \<noteq> None)"
    and r2: "\<And>i. lk dm1 i = (if i \<in> set ds then lk (dependencyMap s) i - {c} else lk (dependencyMap s) i)"
    and r3: "set q1 = set rest \<union> {d \<in> set ds. map_of (dependencyMap s) d \<noteq> None
                                   \<and> lk (dependencyMap s) d - {c} = {}}"
    by blast+
  have inds: "\<And>u. u \<in> set ts \<Longrightarrow> (t_id u \<in> set ds) = (c \<in> depsOf tb u)"
    using dsc uniq by auto
  have lk1: "\<And>u. u \<in> set ts \<Longrightarrow> lk dm1 (t_id u) = depsOf tb u - insert c ?V"
    using r2 a6 inds by auto
  have q1sub: "set q1 \<subseteq> ?T" using r3 a2 dsc by auto
  have b7: "\<And>u. u \<in> set ts \<Longrightarrow> t_id u \<in> set q1 \<union> insert c ?V \<Longrightarrow> depsOf tb u \<subseteq> insert c ?V"
  proof -
    fix u assume u: "u \<in> set ts" and m: "t_id u \<in> set q1 \<union> insert c ?V"
    show "depsOf tb u \<subseteq> insert c ?V"
    proof (cases "t_id u \<in> set (c # rest) \<union> ?V")
      case True
      with a7 [OF u] show ?thesis by auto
    next
      case False
      with m r3 have "lk (dependencyMap s) (t_id u) - {c} = {}" by auto
      with a6 [OF u] show ?thesis by auto
    qed
  qed
  have b8: "\<And>u. u \<in> set ts \<Longrightarrow> t_id u \<notin> insert c ?V \<Longrightarrow> depsOf tb u \<subseteq> insert c ?V
              \<Longrightarrow> t_id u \<in> set q1"
  proof -
    fix u assume u: "u \<in> set ts" and m: "t_id u \<notin> insert c ?V" and d: "depsOf tb u \<subseteq> insert c ?V"
    show "t_id u \<in> set q1"
    proof (cases "c \<in> depsOf tb u")
      case False
      with d have "depsOf tb u \<subseteq> ?V" by auto
      from a8 [OF u _ this] m have "t_id u \<in> set rest" by auto
      with r3 show ?thesis by auto
    next
      case True
      with inds [OF u] have "t_id u \<in> set ds" by simp
      moreover from a6 [OF u] d have "map_of (dependencyMap s) (t_id u) \<noteq> None"
        and "lk (dependencyMap s) (t_id u) - {c} = {}" by auto
      ultimately show ?thesis using r3 by auto
    qed
  qed
  have b9: "\<And>k. k < length (ordered s @ [t]) \<Longrightarrow>
              depsOf tb ((ordered s @ [t]) ! k) \<subseteq> set (take k (visited s @ [c]))"
  proof -
    fix k assume k: "k < length (ordered s @ [t])"
    from a4 have len: "length (ordered s) = length (visited s)" by (metis length_map)
    show "depsOf tb ((ordered s @ [t]) ! k) \<subseteq> set (take k (visited s @ [c]))"
    proof (cases "k < length (ordered s)")
      case True
      with a9 [OF True] len show ?thesis by (simp add: nth_append)
    next
      case False
      with k have ke: "k = length (ordered s)" by simp
      then have "(ordered s @ [t]) ! k = t" by simp
      moreover from ke len have "take k (visited s @ [c]) = visited s" by simp
      moreover from a7 [OF tin] tid have "depsOf tb t \<subseteq> ?V" by simp
      ultimately show ?thesis by simp
    qed
  qed
  let ?s' = "s\<lparr>dependencyMap := dm1, readyQueue := q1,
                ordered := ordered s @ [t], visited := visited s @ [c]\<rparr>"
  show "kahnInv ts tb ?s'"
  proof (rule kahnInvI)
    show "set (visited ?s') \<subseteq> ?T" using a1 a2 by auto
    show "set (readyQueue ?s') \<subseteq> ?T" using q1sub by simp
    show "distinct (visited ?s')" using a3 nv by simp
    show "map t_id (ordered ?s') = visited ?s'" using a4 tid by simp
    show "set (ordered ?s') \<subseteq> set ts" using tin a5 by simp
  next
    fix u assume u: "u \<in> set ts"
    show "map_of (dependencyMap ?s') (t_id u) \<noteq> None" using r1 a6 [OF u] by simp
    show "lk (dependencyMap ?s') (t_id u) = depsOf tb u - set (visited ?s')"
      using lk1 [OF u] by simp
  next
    fix u assume "u \<in> set ts" and "t_id u \<in> set (readyQueue ?s') \<union> set (visited ?s')"
    then show "depsOf tb u \<subseteq> set (visited ?s')" using b7 [of u] by simp
  next
    fix u assume "u \<in> set ts" and "t_id u \<notin> set (visited ?s')"
      and "depsOf tb u \<subseteq> set (visited ?s')"
    then show "t_id u \<in> set (readyQueue ?s')" using b8 [of u] by simp
  next
    fix k assume "k < length (ordered ?s')"
    then show "depsOf tb (ordered ?s' ! k) \<subseteq> set (take k (visited ?s'))"
      using b9 [of k] by simp
  qed
qed

lemma consistentD:
  assumes "consistent ts tb"
  shows "distinct (map t_id ts)" and "[] \<notin> t_id ` set ts"
    and "\<And>t. t \<in> set ts \<Longrightarrow> map_of tb (t_id t) = Some t"
    and "\<And>i t. map_of tb i = Some t \<Longrightarrow> t \<in> set ts \<and> t_id t = i"
  using assms unfolding consistent_def by blast+

lemma kahnLoop_inv:
  "consistent ts tb \<Longrightarrow> dependentsOK ts tb dts \<Longrightarrow> kahnInv ts tb s \<Longrightarrow>
     kahnInv ts tb (kahnLoop cmp tb dts s) \<and> readyQueue (kahnLoop cmp tb dts s) = []"
proof (induction cmp tb dts s rule: kahnLoop.induct)
  case (1 cmp tb dts s)
  note con = "1.prems"(1) and dok = "1.prems"(2) and inv = "1.prems"(3)
  show ?case
  proof (cases "readyQueue s")
    case Nil
    then have "kahnLoop cmp tb dts s = s" by (subst kahnLoop.simps) simp
    with inv Nil show ?thesis by simp
  next
    case (Cons c rest)
    from kahnInvD(2) [OF inv] Cons have cin: "c \<in> t_id ` set ts" by simp
    with consistentD(2) [OF con] have cne: "c \<noteq> []" by blast
    show ?thesis
    proof (cases "c \<in> set (visited s)")
      case True
      then have e: "kahnLoop cmp tb dts s = kahnLoop cmp tb dts (s\<lparr>readyQueue := rest\<rparr>)"
        using Cons by (subst kahnLoop.simps) simp
      have sk: "c = [] \<or> c \<in> set (visited s)" using True by simp
      have "kahnInv ts tb (s\<lparr>readyQueue := rest\<rparr>)" using inv Cons True by (rule kahnInv_skip)
      from "1.IH"(1) [OF Cons sk con dok this] e show ?thesis by simp
    next
      case False
      with cne have nskip: "\<not> (c = [] \<or> c \<in> set (visited s))" by simp
      from cin obtain t where "t \<in> set ts" and "t_id t = c" by blast
      with consistentD(3) [OF con] have t: "map_of tb c = Some t" by blast
      show ?thesis
      proof (cases "map_of dts c")
        case None
        let ?s' = "s\<lparr>readyQueue := rest, ordered := ordered s @ [t], visited := visited s @ [c]\<rparr>"
        have e: "kahnLoop cmp tb dts s = kahnLoop cmp tb dts ?s'"
          using Cons nskip t None by (subst kahnLoop.simps) simp
        have "set [] = lk dts c" using None by (simp add: lk_def)
        moreover have "fold (release cmp c) [] (dependencyMap s, rest) = (dependencyMap s, rest)"
          by simp
        ultimately have "kahnInv ts tb (s\<lparr>dependencyMap := dependencyMap s, readyQueue := rest,
                          ordered := ordered s @ [t], visited := visited s @ [c]\<rparr>)"
          using kahnInv_visit [OF con dok inv Cons False t] by blast
        then have "kahnInv ts tb ?s'" by simp
        from "1.IH"(3) [OF Cons nskip t None con dok this] e show ?thesis by simp
      next
        case (Some ds)
        obtain dm1 q1 where f: "fold (release cmp c) ds (dependencyMap s, rest) = (dm1, q1)"
          by (cases "fold (release cmp c) ds (dependencyMap s, rest)")
        let ?s' = "s\<lparr>dependencyMap := dm1, readyQueue := q1,
                      ordered := ordered s @ [t], visited := visited s @ [c]\<rparr>"
        have e: "kahnLoop cmp tb dts s = kahnLoop cmp tb dts ?s'"
          using Cons nskip t Some f by (subst kahnLoop.simps) simp
        have "set ds = lk dts c" using Some by (simp add: lk_def)
        then have "kahnInv ts tb ?s'"
          using kahnInv_visit [OF con dok inv Cons False t _ f] by blast
        from "1.IH"(4) [OF Cons nskip t Some f [symmetric] con dok this] e show ?thesis by simp
      qed
    qed
  qed
qed

lemma noDependencies_iff:
  "map_of dm (t_id t) \<noteq> None \<Longrightarrow> noDependencies dm t \<longleftrightarrow> lk dm (t_id t) = {}"
  by (auto simp: noDependencies_def lk_def)

lemma kahnInv_initial:
  assumes con: "consistent ts tb" and b: "buildMaps tb ts = (dm, dts)"
  shows "kahnInv ts tb \<lparr> dependencyMap = dm,
            readyQueue = js_sort cmp (map t_id (filter (noDependencies dm) ts)),
            ordered = [], visited = [] \<rparr>"
proof (rule kahnInvI; simp add: set_js_sort)
  note p = buildMaps_props(2) [OF b consistentD(1) [OF con]]
  from consistentD(1) [OF con] have "inj_on t_id (set ts)" by (simp add: distinct_map)
  then have uniq: "\<And>a b. a \<in> set ts \<Longrightarrow> b \<in> set ts \<Longrightarrow> t_id a = t_id b \<Longrightarrow> a = b"
    by (rule inj_onD)
  show "t_id ` {x \<in> set ts. noDependencies dm x} \<subseteq> t_id ` set ts" by blast
  show "\<And>t. t \<in> set ts \<Longrightarrow> \<exists>y. map_of dm (t_id t) = Some y" using p by blast
  show "\<And>t. t \<in> set ts \<Longrightarrow> lk dm (t_id t) = depsOf tb t" using p by blast
  show "\<And>t. t \<in> set ts \<Longrightarrow> t_id t \<in> t_id ` {x \<in> set ts. noDependencies dm x} \<Longrightarrow> depsOf tb t = {}"
  proof -
    fix t assume t: "t \<in> set ts" and "t_id t \<in> t_id ` {x \<in> set ts. noDependencies dm x}"
    then obtain u where "u \<in> set ts" "noDependencies dm u" "t_id t = t_id u" by blast
    with uniq t have "noDependencies dm t" by blast
    with p [OF t] show "depsOf tb t = {}" by (simp add: noDependencies_iff)
  qed
  show "\<And>t. t \<in> set ts \<Longrightarrow> depsOf tb t = {} \<Longrightarrow> t_id t \<in> t_id ` {x \<in> set ts. noDependencies dm x}"
  proof -
    fix t assume t: "t \<in> set ts" and "depsOf tb t = {}"
    with p [OF t] have "noDependencies dm t" by (simp add: noDependencies_iff)
    with t show "t_id t \<in> t_id ` {x \<in> set ts. noDependencies dm x}" by blast
  qed
qed

text \<open>Without a cycle, the queue empties only when every table has been visited.\<close>

lemma kahn_complete:
  assumes con: "consistent ts tb" and inv: "kahnInv ts tb s" and e: "readyQueue s = []"
    and ac: "acyclic {(t_id a, d) | a d. a \<in> set ts \<and> d \<in> depsOf tb a}"
  shows "set (visited s) = t_id ` set ts"
proof (rule ccontr)
  let ?r = "{(t_id a, d) | a d. a \<in> set ts \<and> d \<in> depsOf tb a}"
  let ?U = "t_id ` set ts - set (visited s)"
  assume "set (visited s) \<noteq> t_id ` set ts"
  with kahnInvD(1) [OF inv] obtain x where x: "x \<in> ?U" by blast
  have "?r \<subseteq> t_id ` set ts \<times> t_id ` set ts" using depsOf_subset [OF con] by blast
  then have "finite ?r" by (rule finite_subset) simp
  then have "wf (?r\<inverse>)" using ac by (rule finite_acyclic_wf_converse)
  from wfE_min [OF this x] obtain z where z: "z \<in> ?U" and m: "\<And>y. (y, z) \<in> ?r\<inverse> \<Longrightarrow> y \<notin> ?U"
    by blast
  from z obtain t where t: "t \<in> set ts" "t_id t = z" by blast
  have "depsOf tb t \<subseteq> set (visited s)"
  proof
    fix d assume d: "d \<in> depsOf tb t"
    with t have "(d, z) \<in> ?r\<inverse>" by blast
    from m [OF this] have "d \<notin> ?U" .
    moreover from d depsOf_subset [OF con] have "d \<in> t_id ` set ts" by blast
    ultimately show "d \<in> set (visited s)" by blast
  qed
  with kahnInvD(9) [OF inv t(1)] t z have "t_id t \<in> set (readyQueue s)" by blast
  with e show False by simp
qed

lemma topologicallySortTables_eq:
  assumes b: "buildMaps tb ts = (dm, dts)"
  shows "topologicallySortTables lc ts gsn tb =
     (let final = kahnLoop (compareBySchemaAndName lc gsn tb) tb dts
                    \<lparr> dependencyMap = dm,
                      readyQueue = js_sort (compareBySchemaAndName lc gsn tb)
                                     (map t_id (filter (noDependencies dm) ts)),
                      ordered = [], visited = [] \<rparr>
      in if length (ordered final) \<noteq> length ts
         then ordered final
              @ js_sort (\<lambda>a b. compareBySchemaAndName lc gsn tb (t_id a) (t_id b))
                  (filter (\<lambda>table. t_id table \<notin> set (visited final)) ts)
         else ordered final)"
  using b by (simp add: topologicallySortTables_def Let_def)

lemma topologicallySortTables_correct:
  assumes con: "consistent ts tb"
    and ac: "acyclic {(t_id a, d) | a d. a \<in> set ts \<and> d \<in> depsOf tb a}"
  shows "set (topologicallySortTables lc ts gsn tb) = set ts"
    and "distinct (map t_id (topologicallySortTables lc ts gsn tb))"
    and "\<And>k. k < length (topologicallySortTables lc ts gsn tb) \<Longrightarrow>
           depsOf tb (topologicallySortTables lc ts gsn tb ! k)
             \<subseteq> t_id ` set (take k (topologicallySortTables lc ts gsn tb))"
proof -
  obtain dm dts where b: "buildMaps tb ts = (dm, dts)" by (cases "buildMaps tb ts")
  let ?cmp = "compareBySchemaAndName lc gsn tb"
  let ?s0 = "\<lparr> dependencyMap = dm,
               readyQueue = js_sort ?cmp (map t_id (filter (noDependencies dm) ts)),
               ordered = [], visited = [] \<rparr>"
  let ?f = "kahnLoop ?cmp tb dts ?s0"
  have dok: "dependentsOK ts tb dts" using buildMaps_props(1) [OF b] by (simp add: dependentsOK_def)
  have inv0: "kahnInv ts tb ?s0" using con b by (rule kahnInv_initial)
  from kahnLoop_inv [OF con dok inv0] have inv: "kahnInv ts tb ?f" and e: "readyQueue ?f = []"
    by blast+
  have vis: "set (visited ?f) = t_id ` set ts" using con inv e ac by (rule kahn_complete)
  note d = kahnInvD [OF inv]
  have "filter (\<lambda>table. t_id table \<notin> set (visited ?f)) ts = []" using vis by (simp add: filter_empty_conv)
  then have res: "topologicallySortTables lc ts gsn tb = ordered ?f"
    by (simp add: topologicallySortTables_eq [OF b] Let_def js_sort_def)
  from consistentD(1) [OF con] have inj: "inj_on t_id (set ts)" by (simp add: distinct_map)
  have "t_id ` set (ordered ?f) = t_id ` set ts" using d(4) vis by (metis set_map)
  with d(5) inj have "set (ordered ?f) = set ts" by (metis inj_on_image_eq_iff subset_refl)
  with res show "set (topologicallySortTables lc ts gsn tb) = set ts" by simp
  from res d(3) d(4) show "distinct (map t_id (topologicallySortTables lc ts gsn tb))" by simp
  fix k assume "k < length (topologicallySortTables lc ts gsn tb)"
  with res have k: "k < length (ordered ?f)" by simp
  have "take k (visited ?f) = map t_id (take k (ordered ?f))" using d(4) by (metis take_map)
  with d(10) [OF k] res
  show "depsOf tb (topologicallySortTables lc ts gsn tb ! k)
             \<subseteq> t_id ` set (take k (topologicallySortTables lc ts gsn tb))"
    by simp
qed

lemma map_of_foldl_update:
  "distinct (map fst es) \<Longrightarrow>
   map_of (foldl (\<lambda>m (k, v). AList.update k v m) acc es) k
     = (case map_of es k of Some v \<Rightarrow> Some v | None \<Rightarrow> map_of acc k)"
proof (induction es arbitrary: acc)
  case Nil
  then show ?case by simp
next
  case (Cons e es)
  obtain k0 v0 where e: "e = (k0, v0)" by (cases e)
  from Cons.prems e have d: "distinct (map fst es)" and n: "map_of es k0 = None"
    by (auto simp: map_of_eq_None_iff)
  show ?case using Cons.IH [OF d, of "AList.update k0 v0 acc"] e n
    by (auto simp: update_conv' split: option.splits)
qed

lemma map_of_Map_of_entries:
  "distinct (map fst es) \<Longrightarrow> map_of (Map_of_entries es) = map_of es"
  by (rule ext) (simp add: Map_of_entries_def map_of_foldl_update split: option.splits)

lemma consistent_tableById:
  assumes d: "distinct (map t_id (tables m))" and ne: "[] \<notin> set (map t_id (tables m))"
  shows "consistent (tables m) (tableById_of m)"
proof -
  let ?es = "map (\<lambda>table. (t_id table, table)) (tables m)"
  have fst: "map fst ?es = map t_id (tables m)" by (simp add: comp_def)
  with d have de: "distinct (map fst ?es)" by (simp add: comp_def)
  then have mo: "map_of (tableById_of m) = map_of ?es"
    unfolding tableById_of_def by (rule map_of_Map_of_entries)
  have iff: "\<And>i t. (map_of ?es i = Some t) = ((i, t) \<in> set ?es)"
    using de by (rule map_of_eq_Some_iff)
  show ?thesis
    unfolding consistent_def mo iff using d ne by auto
qed

lemma depsOf_dependsOn:
  assumes con: "consistent ts tb" and a: "a \<in> set ts"
  shows "d \<in> depsOf tb a \<longleftrightarrow> (\<exists>b. dependsOn ts a b \<and> t_id b = d)"
proof
  assume "d \<in> depsOf tb a"
  then obtain fk where fk: "fk \<in> set (foreignKeys a)" "toTableId fk = d" "d \<noteq> t_id a"
    "map_of tb d \<noteq> None"
    by (auto simp: depsOf_def isDep_def)
  then obtain b where "map_of tb d = Some b" by blast
  with consistentD(4) [OF con] have "b \<in> set ts" "t_id b = d" by blast+
  with fk a have "dependsOn ts a b" by (auto simp: dependsOn_def list_ex_iff)
  with \<open>t_id b = d\<close> show "\<exists>b. dependsOn ts a b \<and> t_id b = d" by blast
next
  assume "\<exists>b. dependsOn ts a b \<and> t_id b = d"
  then obtain b fk where b: "b \<in> set ts" "t_id b = d" "d \<noteq> t_id a"
    and fk: "fk \<in> set (foreignKeys a)" "toTableId fk = d"
    by (auto simp: dependsOn_def list_ex_iff)
  from consistentD(3) [OF con b(1)] b(2) have "map_of tb d \<noteq> None" by simp
  moreover from b(1) have "t_id b \<in> t_id ` set ts" by (rule imageI)
  with consistentD(2) [OF con] b(2) have "d \<noteq> []" by metis
  ultimately show "d \<in> depsOf tb a" using fk b(3) by (force simp: depsOf_def isDep_def)
qed

lemma dependencyGraph_depsOf:
  assumes con: "consistent ts tb"
  shows "{(t_id a, d) | a d. a \<in> set ts \<and> d \<in> depsOf tb a} = dependencyGraph ts"
proof (intro set_eqI iffI)
  fix p assume "p \<in> {(t_id a, d) | a d. a \<in> set ts \<and> d \<in> depsOf tb a}"
  then obtain a d where p: "p = (t_id a, d)" and a: "a \<in> set ts" and "d \<in> depsOf tb a" by blast
  with depsOf_dependsOn [OF con a] obtain b where "dependsOn ts a b" "t_id b = d" by blast
  with p show "p \<in> dependencyGraph ts" unfolding dependencyGraph_def by blast
next
  fix p assume "p \<in> dependencyGraph ts"
  then obtain a b where p: "p = (t_id a, t_id b)" and dep: "dependsOn ts a b"
    unfolding dependencyGraph_def by blast
  from dep have a: "a \<in> set ts" by (simp add: dependsOn_def)
  with depsOf_dependsOn [OF con a] dep have "t_id b \<in> depsOf tb a" by blast
  with p a show "p \<in> {(t_id a, d) | a d. a \<in> set ts \<and> d \<in> depsOf tb a}" by blast
qed

text \<open>
  C4. For every model whose table ids are distinct and not empty (identifiers are unique
  strings, and the validation schema of the model, \<open>modelSchema\<close>, requires an id of at
  least one character; the sort itself reads an empty \<open>toTableId\<close> or queue entry as no
  id) and whose dependency graph is acyclic, the tables in the order in which
  \<open>generatePostgresSql\<close> emits their statements are exactly the tables of the model, each
  once, and every table comes after every table it depends on; this covers the chain in
  which \<open>B\<close> references \<open>A\<close> and \<open>C\<close> references \<open>B\<close>. The generated text is the schema
  and type statements followed by the statements of the tables in that order; it is a
  function of the model (and of the collation), so generating twice gives the same text.
\<close>

theorem tables_after_their_targets:
  assumes d: "distinct (map t_id (tables m))" and ne: "[] \<notin> set (map t_id (tables m))"
    and ac: "acyclic (dependencyGraph (tables m))"
  shows "set (orderedTables lc m) = set (tables m)
       \<and> distinct (map t_id (orderedTables lc m))
       \<and> (\<forall>a b. dependsOn (tables m) a b \<longrightarrow>
            (\<exists>i j. j < i \<and> i < length (orderedTables lc m)
                  \<and> orderedTables lc m ! j = b \<and> orderedTables lc m ! i = a))
       \<and> generatePostgresSql N lc m
           = join [newline]
               (schemaStatements lc m @ typeStatements m
                @ concat (map (tableStatements N m) (orderedTables lc m)))"
proof -
  let ?ts = "tables m" and ?tb = "tableById_of m"
  let ?r = "orderedTables lc m"
  have con: "consistent ?ts ?tb" using d ne by (rule consistent_tableById)
  have ac': "acyclic {(t_id a, x) | a x. a \<in> set ?ts \<and> x \<in> depsOf ?tb a}"
    using ac by (simp add: dependencyGraph_depsOf [OF con])
  note c = topologicallySortTables_correct [OF con ac', where lc = lc
      and gsn = "getSchemaName_of (schemaById_of m)", folded orderedTables_def]
  from d have inj: "inj_on t_id (set ?ts)" by (simp add: distinct_map)
  have ord: "\<exists>i j. j < i \<and> i < length ?r \<and> ?r ! j = b \<and> ?r ! i = a"
    if dep: "dependsOn ?ts a b" for a b
  proof -
    from dep have a: "a \<in> set ?ts" and b: "b \<in> set ?ts" by (simp_all add: dependsOn_def)
    from a c(1) obtain i where i: "i < length ?r" "?r ! i = a" by (metis in_set_conv_nth)
    from dep depsOf_dependsOn [OF con a] have "t_id b \<in> depsOf ?tb a" by blast
    with c(3) [OF i(1)] i(2) obtain x where x: "x \<in> set (take i ?r)" "t_id x = t_id b" by auto
    from x(1) have "x \<in> set ?r" by (rule in_set_takeD)
    with c(1) have "x \<in> set ?ts" by simp
    with inj b x(2) have "x = b" by (auto dest: inj_onD)
    with x(1) obtain j where "j < length (take i ?r)" "take i ?r ! j = b"
      by (metis in_set_conv_nth)
    then have "j < i" "?r ! j = b" by simp_all
    with i show ?thesis by blast
  qed
  show ?thesis using c(1) c(2) ord by (simp add: generatePostgresSql_def)
qed

theorem tables_after_their_targets_witness:
  "distinct (map t_id (tables chainModel)) \<and> [] \<notin> set (map t_id (tables chainModel))
   \<and> acyclic (dependencyGraph (tables chainModel))
   \<and> dependsOn (tables chainModel) tblB tblA \<and> dependsOn (tables chainModel) tblC tblB
   \<and> (\<exists>i j. j < i \<and> i < length (orderedTables lexCompare chainModel)
         \<and> orderedTables lexCompare chainModel ! j = tblA
         \<and> orderedTables lexCompare chainModel ! i = tblB)
   \<and> (\<exists>i j. j < i \<and> i < length (orderedTables lexCompare chainModel)
         \<and> orderedTables lexCompare chainModel ! j = tblB
         \<and> orderedTables lexCompare chainModel ! i = tblC)"
proof -
  have h1: "distinct (map t_id (tables chainModel))"
    by (simp add: chainModel_def tblA_def tblB_def tblC_def mkTable_def)
  have h2: "[] \<notin> set (map t_id (tables chainModel))"
    by (simp add: chainModel_def tblA_def tblB_def tblC_def mkTable_def)
  have h3: "acyclic (dependencyGraph (tables chainModel))"
  proof (rule acyclicI_order [where f = "\<lambda>i. if i = ''ta'' then 0 :: nat else if i = ''tb'' then 1 else 2"])
    fix a b assume "(a, b) \<in> dependencyGraph (tables chainModel)"
    then show "(if b = ''ta'' then 0 :: nat else if b = ''tb'' then 1 else 2)
                < (if a = ''ta'' then 0 :: nat else if a = ''tb'' then 1 else 2)"
      by (auto simp: dependencyGraph_def dependsOn_def chainModel_def tblA_def tblB_def tblC_def
            mkTable_def mkFk_def)
  qed
  have d1: "dependsOn (tables chainModel) tblB tblA"
    by (simp add: dependsOn_def chainModel_def tblA_def tblB_def tblC_def mkTable_def mkFk_def)
  have d2: "dependsOn (tables chainModel) tblC tblB"
    by (simp add: dependsOn_def chainModel_def tblA_def tblB_def tblC_def mkTable_def mkFk_def)
  from tables_after_their_targets [OF h1 h2 h3, where lc = lexCompare and N = specNaming] d1 d2
  show ?thesis using h1 h2 h3 by blast
qed

end
